theory Spec2Isabelle
  imports Complex_Main "HOL-Library.Monad_Syntax" "HOL-Library.AList" "HOL-Library.Multiset"
begin

section \<open>JavaScript values and strings\<close>

text \<open>
  The two serverless functions of the repository (\<^verbatim>\<open>netlify/functions/subscribe.js\<close> and the
  countries function) are dynamically typed: what they do depends on the run-time shape of the
  values that \<^verbatim>\<open>JSON.parse\<close> hands them. The embedding therefore works on a datatype of
  JavaScript values. An exception (\<^verbatim>\<open>TypeError\<close>, \<^verbatim>\<open>SyntaxError\<close>, an I/O error) is the
  value \<open>None\<close> of an option type: every \<^verbatim>\<open>catch\<close> of the source ignores what was thrown.

  Modelling limits, stated once:
  \<^item> strings are lists of HOL characters, read as the code points 0 to 255:
    \<open>toLowerCase\<close>, \<open>trim\<close> and the class \<^verbatim>\<open>\s\<close> follow JavaScript on that range (the capitals
    \<^verbatim>\<open>A\<close> to \<^verbatim>\<open>Z\<close> and those of codes 192 to 222 but the multiplication sign; the white space
    of codes 9 to 13, 32 and 160), \<open>toUpperCase\<close> follows it on the ASCII range and leaves
    every other character alone, and \<^verbatim>\<open>JSON.parse\<close> rejects an escape for a code point above
    255;
  \<^item> a number is the exact decimal that its JSON text denotes, where JavaScript keeps the
    nearest double (and writes a double that overflowed back as \<^verbatim>\<open>null\<close>): the model is exact
    on texts whose numbers are written the way JavaScript prints them, and the code inspects
    a number only for being zero;
  \<^item> an object is its list of own properties in insertion order (JavaScript lists keys
    that look like array indices first); the code looks properties up by name only.
\<close>

datatype jsval =
    JUndefined
  | JNull
  | JBool bool
  | JNum rat
  | JStr string
  | JArr "jsval list"
  | JObj "(string \<times> jsval) list"

definition is_space :: "char \<Rightarrow> bool" where
  "is_space c = (of_char c \<in> {9, 10, 11, 12, 13, 32, 160::nat})"

definition is_upper :: "char \<Rightarrow> bool" where
  "is_upper c =
     (65 \<le> (of_char c :: nat) \<and> (of_char c :: nat) \<le> 90 \<or>
      192 \<le> (of_char c :: nat) \<and> (of_char c :: nat) \<le> 222 \<and> (of_char c :: nat) \<noteq> 215)"

definition is_lower :: "char \<Rightarrow> bool" where
  "is_lower c = (97 \<le> (of_char c :: nat) \<and> (of_char c :: nat) \<le> 122)"

definition lower_char :: "char \<Rightarrow> char" where
  "lower_char c = (if is_upper c then char_of (of_char c + (32::nat)) else c)"

definition upper_char :: "char \<Rightarrow> char" where
  "upper_char c = (if is_lower c then char_of (of_char c - (32::nat)) else c)"

definition toLowerCase :: "string \<Rightarrow> string" where
  "toLowerCase s = map lower_char s"

definition toUpperCase :: "string \<Rightarrow> string" where
  "toUpperCase s = map upper_char s"

definition trim :: "string \<Rightarrow> string" where
  "trim s = rev (dropWhile is_space (rev (dropWhile is_space s)))"

text \<open>\<^verbatim>\<open>s.includes(p)\<close>: \<open>p\<close> occurs in \<open>s\<close> as a contiguous run.\<close>

fun starts_with :: "string \<Rightarrow> string \<Rightarrow> bool" where
  "starts_with s [] = True"
| "starts_with [] (p # ps) = False"
| "starts_with (c # cs) (p # ps) = (c = p \<and> starts_with cs ps)"

fun includes_str :: "string \<Rightarrow> string \<Rightarrow> bool" where
  "includes_str [] p = (p = [])"
| "includes_str (c # cs) p = (starts_with (c # cs) p \<or> includes_str cs p)"

text \<open>\<^verbatim>\<open>s.split(sep)\<close> for a one-character separator: \<^verbatim>\<open>"".split(",")\<close> is \<^verbatim>\<open>[""]\<close>.\<close>

fun split_on :: "char \<Rightarrow> string \<Rightarrow> string list" where
  "split_on sep [] = [[]]"
| "split_on sep (c # cs) =
     (if c = sep then [] # split_on sep cs
      else (case split_on sep cs of
              [] \<Rightarrow> [[c]]
            | w # ws \<Rightarrow> (c # w) # ws))"

text \<open>Truthiness (\<^verbatim>\<open>!v\<close>, \<^verbatim>\<open>a || b\<close>, \<^verbatim>\<open>filter(Boolean)\<close>).\<close>

fun truthy :: "jsval \<Rightarrow> bool" where
  "truthy JUndefined = False"
| "truthy JNull = False"
| "truthy (JBool b) = b"
| "truthy (JNum q) = (q \<noteq> 0)"
| "truthy (JStr s) = (s \<noteq> [])"
| "truthy (JArr xs) = True"
| "truthy (JObj kvs) = True"

text \<open>
  Reading a property. \<open>get_prop\<close> is the lookup on a value that is neither \<^verbatim>\<open>null\<close> nor
  \<^verbatim>\<open>undefined\<close>; the code reads no name that \<^verbatim>\<open>Object.prototype\<close> defines, and of the
  built-in properties of arrays and strings only \<^verbatim>\<open>length\<close>. \<open>get\<close> raises the
  \<^verbatim>\<open>TypeError\<close> of a read on \<^verbatim>\<open>null\<close> or \<^verbatim>\<open>undefined\<close>.
\<close>

fun get_prop :: "jsval \<Rightarrow> string \<Rightarrow> jsval" where
  "get_prop (JObj kvs) k = (case map_of kvs k of None \<Rightarrow> JUndefined | Some v \<Rightarrow> v)"
| "get_prop (JArr xs) k = (if k = ''length'' then JNum (of_nat (length xs)) else JUndefined)"
| "get_prop (JStr s) k = (if k = ''length'' then JNum (of_nat (length s)) else JUndefined)"
| "get_prop v k = JUndefined"

fun get :: "jsval \<Rightarrow> string \<Rightarrow> jsval option" where
  "get JUndefined k = None"
| "get JNull k = None"
| "get v k = Some (get_prop v k)"

text \<open>
  Writing a property of an object: an existing key keeps its place, a new key goes last. The
  code assigns only to values it has just read an own property from, which are objects.
\<close>

fun set_prop :: "jsval \<Rightarrow> string \<Rightarrow> jsval \<Rightarrow> jsval" where
  "set_prop (JObj kvs) k v = JObj (AList.update k v kvs)"
| "set_prop w k v = w"

section \<open>\<^verbatim>\<open>JSON.parse\<close>\<close>

text \<open>
  The JSON grammar of ECMA-404, as \<^verbatim>\<open>JSON.parse\<close> reads it: a tokenizer, then a pushdown
  automaton over the tokens. \<open>None\<close> is the \<^verbatim>\<open>SyntaxError\<close>.
\<close>

datatype token =
  TLBrace | TRBrace | TLBrack | TRBrack | TColon | TComma | TScalar jsval

definition is_json_ws :: "char \<Rightarrow> bool" where
  "is_json_ws c = (of_char c \<in> {32, 9, 10, 13::nat})"

definition is_digit :: "char \<Rightarrow> bool" where
  "is_digit c = (48 \<le> (of_char c :: nat) \<and> (of_char c :: nat) \<le> 57)"

definition digit_val :: "char \<Rightarrow> nat" where
  "digit_val c = of_char c - 48"

definition hex_val :: "char \<Rightarrow> nat option" where
  "hex_val c =
     (let n = (of_char c :: nat) in
      if 48 \<le> n \<and> n \<le> 57 then Some (n - 48)
      else if 65 \<le> n \<and> n \<le> 70 then Some (n - 55)
      else if 97 \<le> n \<and> n \<le> 102 then Some (n - 87)
      else None)"

definition nat_of_digits :: "string \<Rightarrow> nat" where
  "nat_of_digits ds = foldl (\<lambda>n c. 10 * n + digit_val c) 0 ds"

text \<open>The character an escape \<^verbatim>\<open>\c\<close> of a JSON string stands for.\<close>

definition unescape :: "char \<Rightarrow> char option" where
  "unescape e =
     (if e = CHR 0x22 \<or> e = CHR 0x5C \<or> e = CHR ''/'' then Some e
      else if e = CHR ''b'' then Some (CHR 0x08)
      else if e = CHR ''f'' then Some (CHR 0x0C)
      else if e = CHR ''n'' then Some (CHR 0x0A)
      else if e = CHR ''r'' then Some (CHR 0x0D)
      else if e = CHR ''t'' then Some (CHR 0x09)
      else None)"

text \<open>
  The \<^verbatim>\<open>\uXXXX\<close> escape gives a UTF-16 code unit; the model holds the code units below 256
  and has no value for the others.
\<close>

definition unicode_escape :: "string \<Rightarrow> char option" where
  "unicode_escape hs =
     (case map hex_val hs of
        [Some a, Some b, Some c, Some d] \<Rightarrow>
          (let n = ((a * 16 + b) * 16 + c) * 16 + d in
           if n < 256 then Some (char_of n) else None)
      | _ \<Rightarrow> None)"

text \<open>
  \<open>lex_string s\<close> reads the rest of a string literal, after its opening quote: the decoded
  characters and the input after the closing quote.
\<close>

fun lex_string :: "string \<Rightarrow> (string \<times> string) option" where
  "lex_string [] = None"
| "lex_string [c] = (if c = CHR 0x22 then Some ([], []) else None)"
| "lex_string (c # e # cs) =
     (if c = CHR 0x22 then Some ([], e # cs)
      else if c = CHR 0x5C then
        (if e = CHR ''u'' then
           (case unicode_escape (take 4 cs) of
              None \<Rightarrow> None
            | Some d \<Rightarrow> map_option (\<lambda>(str, rest). (d # str, rest)) (lex_string (drop 4 cs)))
         else
           (case unescape e of
              None \<Rightarrow> None
            | Some d \<Rightarrow> map_option (\<lambda>(str, rest). (d # str, rest)) (lex_string cs)))
      else if (of_char c :: nat) < 32 then None
      else map_option (\<lambda>(str, rest). (c # str, rest)) (lex_string (e # cs)))"

text \<open>
  \<open>lex_number s\<close> reads a number at the head of \<open>s\<close>:
  \<^verbatim>\<open>-? (0 | [1-9][0-9]*) (. [0-9]+)? ([eE] [+-]? [0-9]+)?\<close>.
\<close>

definition lex_sign :: "string \<Rightarrow> bool \<times> string" where
  "lex_sign s = (case s of [] \<Rightarrow> (False, s) | c # cs \<Rightarrow> if c = CHR ''-'' then (True, cs) else (False, s))"

definition lex_frac :: "string \<Rightarrow> (string \<times> string) option" where
  "lex_frac s =
     (case s of
        [] \<Rightarrow> Some ([], s)
      | c # cs \<Rightarrow>
          if c = CHR ''.'' then
            (if takeWhile is_digit cs = [] then None
             else Some (takeWhile is_digit cs, dropWhile is_digit cs))
          else Some ([], s))"

definition lex_exp :: "string \<Rightarrow> (int \<times> string) option" where
  "lex_exp s =
     (case s of
        [] \<Rightarrow> Some (0, s)
      | c # cs \<Rightarrow>
          if c = CHR ''e'' \<or> c = CHR ''E'' then
            (let (neg, ds) =
                   (case cs of
                      [] \<Rightarrow> (False, cs)
                    | g # gs \<Rightarrow>
                        if g = CHR ''-'' then (True, gs)
                        else if g = CHR ''+'' then (False, gs)
                        else (False, cs))
             in if takeWhile is_digit ds = [] then None
                else Some ((if neg then - 1 else 1) * int (nat_of_digits (takeWhile is_digit ds)),
                           dropWhile is_digit ds))
          else Some (0, s))"

definition scale10 :: "rat \<Rightarrow> int \<Rightarrow> rat" where
  "scale10 q e = (if 0 \<le> e then q * 10 ^ nat e else q / 10 ^ nat (- e))"

definition lex_number :: "string \<Rightarrow> (rat \<times> string) option" where
  "lex_number s =
     (let (neg, s1) = lex_sign s;
          ds = takeWhile is_digit s1
      in if ds = [] \<or> (1 < length ds \<and> hd ds = CHR ''0'') then None
         else
           (case lex_frac (dropWhile is_digit s1) of
              None \<Rightarrow> None
            | Some (fs, s2) \<Rightarrow>
                (case lex_exp s2 of
                   None \<Rightarrow> None
                 | Some (e, s3) \<Rightarrow>
                     Some ((if neg then - 1 else 1) *
                             scale10 (of_nat (nat_of_digits (ds @ fs))) (e - int (length fs)),
                           s3))))"

lemma lex_string_shorter:
  "lex_string s = Some (str, rest) \<Longrightarrow> length rest < length s"
proof (induction s arbitrary: str rest rule: lex_string.induct)
  case 1
  then show ?case by simp
next
  case (2 c)
  then show ?case by (simp split: if_splits)
next
  case (3 c e cs)
  show ?case
  proof (cases "c = CHR 0x22")
    case True
    with 3 show ?thesis by simp
  next
    case notq: False
    show ?thesis
    proof (cases "c = CHR 0x5C")
      case bs: True
      show ?thesis
      proof (cases "e = CHR ''u''")
        case True
        with 3 notq bs obtain d str' where
          "unicode_escape (take 4 cs) = Some d"
          "lex_string (drop 4 cs) = Some (str', rest)"
          by (auto split: option.splits)
        with "3.IH"(1) [OF notq bs True] have "length rest < length (drop 4 cs)"
          by blast
        then show ?thesis by simp
      next
        case False
        with 3 notq bs obtain d str' where
          "unescape e = Some d" "lex_string cs = Some (str', rest)"
          by (auto split: option.splits)
        with "3.IH"(2) [OF notq bs False] have "length rest < length cs"
          by blast
        then show ?thesis by simp
      qed
    next
      case False
      with 3 notq obtain str' where
        "\<not> (of_char c :: nat) < 32" "lex_string (e # cs) = Some (str', rest)"
        by (auto split: if_splits)
      with "3.IH"(3) [OF notq False] have "length rest < length (e # cs)"
        by blast
      then show ?thesis by simp
    qed
  qed
qed

lemma lex_sign_length: "lex_sign s = (neg, s1) \<Longrightarrow> length s1 \<le> length s"
  by (auto simp: lex_sign_def split: list.splits if_splits)

lemma lex_frac_length: "lex_frac s = Some (fs, s2) \<Longrightarrow> length s2 \<le> length s"
  by (auto simp: lex_frac_def length_dropWhile_le le_SucI split: list.splits if_splits)

lemma lex_exp_length: "lex_exp s = Some (e, s3) \<Longrightarrow> length s3 \<le> length s"
  by (auto simp: lex_exp_def Let_def length_dropWhile_le le_SucI
           split: list.splits if_splits prod.splits
           intro: order_trans [OF length_dropWhile_le])

lemma lex_number_shorter:
  assumes "lex_number s = Some (q, rest)"
  shows "length rest < length s"
proof -
  obtain neg s1 where s1: "lex_sign s = (neg, s1)"
    by (cases "lex_sign s")
  from assms s1 obtain fs s2 e where
    ds: "takeWhile is_digit s1 \<noteq> []" and
    fr: "lex_frac (dropWhile is_digit s1) = Some (fs, s2)" and
    ex: "lex_exp s2 = Some (e, rest)"
    by (auto simp: lex_number_def Let_def split: if_splits option.splits)
  have "length (takeWhile is_digit s1) + length (dropWhile is_digit s1) = length s1"
    by (metis length_append takeWhile_dropWhile_id)
  with ds have "length (dropWhile is_digit s1) < length s1"
    by (cases "takeWhile is_digit s1") auto
  with lex_frac_length [OF fr] lex_exp_length [OF ex] lex_sign_length [OF s1]
  show ?thesis by linarith
qed

text \<open>The tokenizer. White space between tokens is skipped.\<close>

definition lex_literal :: "string \<Rightarrow> (jsval \<times> string) option" where
  "lex_literal s =
     (if starts_with s ''true'' then Some (JBool True, drop 4 s)
      else if starts_with s ''false'' then Some (JBool False, drop 5 s)
      else if starts_with s ''null'' then Some (JNull, drop 4 s)
      else None)"

lemma lex_literal_shorter:
  "lex_literal s = Some (v, rest) \<Longrightarrow> length rest < length s"
  by (cases s) (auto simp: lex_literal_def split: if_splits)

function lex :: "string \<Rightarrow> token list option" where
  "lex [] = Some []"
| "lex (c # cs) =
     (if is_json_ws c then lex cs
      else if c = CHR ''{'' then map_option ((#) TLBrace) (lex cs)
      else if c = CHR ''}'' then map_option ((#) TRBrace) (lex cs)
      else if c = CHR ''['' then map_option ((#) TLBrack) (lex cs)
      else if c = CHR '']'' then map_option ((#) TRBrack) (lex cs)
      else if c = CHR '':'' then map_option ((#) TColon) (lex cs)
      else if c = CHR '','' then map_option ((#) TComma) (lex cs)
      else if c = CHR 0x22 then
        (case lex_string cs of
           None \<Rightarrow> None
         | Some (str, rest) \<Rightarrow> map_option ((#) (TScalar (JStr str))) (lex rest))
      else if c = CHR ''-'' \<or> is_digit c then
        (case lex_number (c # cs) of
           None \<Rightarrow> None
         | Some (q, rest) \<Rightarrow> map_option ((#) (TScalar (JNum q))) (lex rest))
      else
        (case lex_literal (c # cs) of
           None \<Rightarrow> None
         | Some (v, rest) \<Rightarrow> map_option ((#) (TScalar v)) (lex rest)))"
  by pat_completeness auto
termination
proof (relation "measure length")
  show "wf (measure length)" by simp
next
  fix c cs x2 x y
  assume "lex_string cs = Some x2" "(x, y) = x2"
  then have "length y < length cs"
    using lex_string_shorter [of cs x y] by simp
  then show "(y, c # cs) \<in> measure length" by simp
next
  fix c cs x2 x y
  assume "lex_number (c # cs) = Some x2" "(x, y) = x2"
  then show "(y, c # cs) \<in> measure length"
    using lex_number_shorter [of "c # cs" x y] by simp
next
  fix c cs x2 x y
  assume "lex_literal (c # cs) = Some x2" "(x, y) = x2"
  then show "(y, c # cs) \<in> measure length"
    using lex_literal_shorter [of "c # cs" x y] by simp
qed simp_all

text \<open>
  The parser: a pushdown automaton. A frame of the stack is an array or an object under
  construction; the state says which tokens may come next. A value that is complete goes into
  the frame on top of the stack, or is the result when the stack is empty. A repeated key
  of an object takes the later value and keeps the earlier place.
\<close>

datatype frame =
    FArr "jsval list"
  | FObj "(string \<times> jsval) list"
  | FMember "(string \<times> jsval) list" string

datatype pstate =
    PValue
  | PFirstElem
  | PFirstKey
  | PKey
  | PColon
  | PNext
  | PDone jsval

fun deliver :: "jsval \<Rightarrow> frame list \<Rightarrow> (pstate \<times> frame list) option" where
  "deliver v [] = Some (PDone v, [])"
| "deliver v (FArr es # st) = Some (PNext, FArr (es @ [v]) # st)"
| "deliver v (FMember ms k # st) = Some (PNext, FObj (AList.update k v ms) # st)"
| "deliver v (FObj ms # st) = None"

fun begin_value :: "token \<Rightarrow> frame list \<Rightarrow> (pstate \<times> frame list) option" where
  "begin_value (TScalar v) st = deliver v st"
| "begin_value TLBrack st = Some (PFirstElem, FArr [] # st)"
| "begin_value TLBrace st = Some (PFirstKey, FObj [] # st)"
| "begin_value t st = None"

fun begin_member :: "token \<Rightarrow> frame list \<Rightarrow> (pstate \<times> frame list) option" where
  "begin_member (TScalar (JStr k)) (FObj ms # st) = Some (PColon, FMember ms k # st)"
| "begin_member t st = None"

fun pstep :: "pstate \<Rightarrow> frame list \<Rightarrow> token \<Rightarrow> (pstate \<times> frame list) option" where
  "pstep PValue st t = begin_value t st"
| "pstep PFirstElem (FArr es # st) TRBrack = deliver (JArr es) st"
| "pstep PFirstElem st t = begin_value t st"
| "pstep PFirstKey (FObj ms # st) TRBrace = deliver (JObj ms) st"
| "pstep PFirstKey st t = begin_member t st"
| "pstep PKey st t = begin_member t st"
| "pstep PColon st TColon = Some (PValue, st)"
| "pstep PColon st t = None"
| "pstep PNext (FArr es # st) TComma = Some (PValue, FArr es # st)"
| "pstep PNext (FArr es # st) TRBrack = deliver (JArr es) st"
| "pstep PNext (FObj ms # st) TComma = Some (PKey, FObj ms # st)"
| "pstep PNext (FObj ms # st) TRBrace = deliver (JObj ms) st"
| "pstep PNext st t = None"
| "pstep (PDone v) st t = None"

fun prun :: "pstate \<Rightarrow> frame list \<Rightarrow> token list \<Rightarrow> jsval option" where
  "prun (PDone v) [] [] = Some v"
| "prun s st [] = None"
| "prun s st (t # ts) =
     (case pstep s st t of
        None \<Rightarrow> None
      | Some (s', st') \<Rightarrow> prun s' st' ts)"

definition JSON_parse :: "string \<Rightarrow> jsval option" where
  "JSON_parse s = (case lex s of None \<Rightarrow> None | Some ts \<Rightarrow> prun PValue [] ts)"

section \<open>Regular expressions\<close>

text \<open>
  The fragment of regular expressions that the code uses, with a matcher by derivatives.
  \<open>regex_test r s\<close> is \<^verbatim>\<open>/^r$/.test(s)\<close>: without flags the anchors are the two ends of the
  input, and \<^verbatim>\<open>test\<close> succeeds when some way of matching does.
\<close>

datatype regex =
    Never
  | Eps
  | Cls "char \<Rightarrow> bool"
  | Cat regex regex
  | Alt regex regex
  | Star regex
  | Plus regex

fun nullable :: "regex \<Rightarrow> bool" where
  "nullable Never = False"
| "nullable Eps = True"
| "nullable (Cls p) = False"
| "nullable (Cat r s) = (nullable r \<and> nullable s)"
| "nullable (Alt r s) = (nullable r \<or> nullable s)"
| "nullable (Star r) = True"
| "nullable (Plus r) = nullable r"

fun deriv :: "char \<Rightarrow> regex \<Rightarrow> regex" where
  "deriv c Never = Never"
| "deriv c Eps = Never"
| "deriv c (Cls p) = (if p c then Eps else Never)"
| "deriv c (Cat r s) =
     (if nullable r then Alt (Cat (deriv c r) s) (deriv c s) else Cat (deriv c r) s)"
| "deriv c (Alt r s) = Alt (deriv c r) (deriv c s)"
| "deriv c (Star r) = Cat (deriv c r) (Star r)"
| "deriv c (Plus r) = Cat (deriv c r) (Star r)"

fun regex_test :: "regex \<Rightarrow> string \<Rightarrow> bool" where
  "regex_test r [] = nullable r"
| "regex_test r (c # cs) = regex_test (deriv c r) cs"

section \<open>The subscribe function: \<^verbatim>\<open>netlify/functions/subscribe.js\<close>\<close>

subsection \<open>\<^verbatim>\<open>isValidEmail\<close>\<close>

text \<open>The class \<^verbatim>\<open>[^\s@]\<close> and the literal \<^verbatim>\<open>/^[^\s@]+@[^\s@]+\.[^\s@]+$/\<close>.\<close>

definition not_space_at :: "char \<Rightarrow> bool" where
  "not_space_at c = (\<not> is_space c \<and> c \<noteq> CHR ''@'')"

definition emailRegex :: regex where
  "emailRegex =
     Cat (Plus (Cls not_space_at))
       (Cat (Cls (\<lambda>c. c = CHR ''@''))
          (Cat (Plus (Cls not_space_at))
             (Cat (Cls (\<lambda>c. c = CHR ''.''))
                (Plus (Cls not_space_at)))))"

fun isValidEmail :: "jsval \<Rightarrow> bool" where
  "isValidEmail (JStr email) = (email \<noteq> [] \<and> regex_test emailRegex email)"
| "isValidEmail v = False"

subsection \<open>\<^verbatim>\<open>parseBody\<close>\<close>

text \<open>
  \<^verbatim>\<open>new URLSearchParams(body)\<close>: a leading \<^verbatim>\<open>?\<close> is dropped, the text is cut at every \<^verbatim>\<open>&\<close>,
  empty pieces are skipped, a piece is cut at its first \<^verbatim>\<open>=\<close>, and in each half \<^verbatim>\<open>+\<close> is a
  space and \<^verbatim>\<open>%XX\<close> is the byte \<^verbatim>\<open>XX\<close>.
\<close>

fun percent_decode :: "string \<Rightarrow> string" where
  "percent_decode [] = []"
| "percent_decode (c # cs) =
     (if c = CHR ''%'' then
        (case map hex_val (take 2 cs) of
           [Some a, Some b] \<Rightarrow> char_of (a * 16 + b) # percent_decode (drop 2 cs)
         | _ \<Rightarrow> c # percent_decode cs)
      else c # percent_decode cs)"

definition form_decode :: "string \<Rightarrow> string" where
  "form_decode s = percent_decode (map (\<lambda>c. if c = CHR ''+'' then CHR '' '' else c) s)"

definition URLSearchParams :: "string \<Rightarrow> (string \<times> string) list" where
  "URLSearchParams init =
     map (\<lambda>piece. (form_decode (takeWhile (\<lambda>c. c \<noteq> CHR ''='') piece),
                    form_decode (drop 1 (dropWhile (\<lambda>c. c \<noteq> CHR ''='') piece))))
       (filter (\<lambda>piece. piece \<noteq> [])
          (split_on (CHR ''&'') (if starts_with init ''?'' then drop 1 init else init)))"

text \<open>
  The loop \<^verbatim>\<open>for (const [key, value] of params) result[key] = value\<close>. An assignment to
  \<^verbatim>\<open>__proto__\<close> of a string is the one that leaves the object as it is.
\<close>

definition assign_param :: "(string \<times> jsval) list \<Rightarrow> string \<times> string \<Rightarrow> (string \<times> jsval) list" where
  "assign_param result kv =
     (if fst kv = ''__proto__'' then result else AList.update (fst kv) (JStr (snd kv)) result)"

definition parseBody :: "string option \<Rightarrow> string option \<Rightarrow> jsval option" where
  "parseBody body contentType =
     (case body of
        None \<Rightarrow> Some (JObj [])
      | Some b \<Rightarrow>
          if b = [] then Some (JObj [])
          else if (case contentType of None \<Rightarrow> False
                   | Some ct \<Rightarrow> includes_str ct ''application/json'')
          then JSON_parse b
          else if (case contentType of None \<Rightarrow> False
                   | Some ct \<Rightarrow> includes_str ct ''application/x-www-form-urlencoded'')
          then Some (JObj (foldl assign_param [] (URLSearchParams b)))
          else (case JSON_parse b of None \<Rightarrow> Some (JObj []) | Some v \<Rightarrow> Some v))"

subsection \<open>The world the function runs in\<close>

text \<open>
  A file that \<^verbatim>\<open>JSON.parse(fs.readFileSync(...))\<close> reads is absent, or holds some text, or holds
  what the function wrote last: \<open>Saved data\<close> stands for the text
  \<^verbatim>\<open>JSON.stringify(data, null, 2)\<close>, which parses back to \<open>data\<close>. The flags say whether the
  file system lets the next read, \<^verbatim>\<open>mkdirSync\<close> and \<^verbatim>\<open>writeFileSync\<close> through.
\<close>

datatype file_state = Absent | Text string | Saved jsval

record disk =
  subscribers_file :: file_state
  data_dir :: bool
  can_read :: bool
  can_mkdir :: bool
  can_write :: bool

text \<open>The readings of \<^verbatim>\<open>new Date().toISOString()\<close> at lines 19, 132 and 137.\<close>

record clock =
  now_created :: string
  now_updated :: string
  now_last_updated :: string

text \<open>
  The event that the platform hands to a function: the method, the headers (an object whose
  values are strings; \<open>map_of\<close> reads one) and the body, which is a string or \<^verbatim>\<open>null\<close>.
\<close>

record event =
  httpMethod :: string
  headers :: "(string \<times> string) list"
  body :: "string option"

text \<open>
  A response; \<open>resBody\<close> is the value that the code hands to \<^verbatim>\<open>JSON.stringify\<close>. A
  \<open>subscriber\<close> is the object that line 46 builds: its \<^verbatim>\<open>email\<close> is a string by then, the
  other fields are whatever the request gave.
\<close>

record response =
  statusCode :: nat
  resHeaders :: "(string \<times> string) list"
  resBody :: jsval

record subscriber =
  email :: string
  countries :: jsval
  created_at :: jsval
  active :: bool

definition read_json :: "bool \<Rightarrow> file_state \<Rightarrow> jsval option" where
  "read_json readable f =
     (if \<not> readable then None
      else (case f of
              Absent \<Rightarrow> None
            | Text rawData \<Rightarrow> JSON_parse rawData
            | Saved data \<Rightarrow> Some data))"

fun as_array :: "jsval \<Rightarrow> jsval list option" where
  "as_array (JArr xs) = Some xs"
| "as_array v = None"

subsection \<open>\<^verbatim>\<open>saveSubscriber\<close>\<close>

definition default_document :: jsval where
  "default_document =
     JObj [(''subscribers'', JArr []), (''last_updated'', JNull), (''version'', JStr ''1.0'')]"

text \<open>
  \<^verbatim>\<open>data.subscribers.findIndex(s => s.email.toLowerCase() === newSubscriber.email.toLowerCase())\<close>:
  \<open>Some None\<close> is the result \<^verbatim>\<open>-1\<close>. The scan stops at the first match; before it, a record
  that is \<^verbatim>\<open>null\<close> or whose \<^verbatim>\<open>email\<close> is not a string raises.
\<close>

fun findIndex_email :: "jsval list \<Rightarrow> string \<Rightarrow> nat option option" where
  "findIndex_email [] e = Some None"
| "findIndex_email (s # ss) e =
     (case get s ''email'' of
        Some (JStr se) \<Rightarrow>
          if toLowerCase se = toLowerCase e then Some (Some 0)
          else map_option (map_option Suc) (findIndex_email ss e)
      | _ \<Rightarrow> None)"

text \<open>The spread \<^verbatim>\<open>[...v]\<close>: arrays and strings are iterable, nothing else of JSON is.\<close>

fun spread :: "jsval \<Rightarrow> jsval list option" where
  "spread (JArr xs) = Some xs"
| "spread (JStr s) = Some (map (\<lambda>c. JStr [c]) s)"
| "spread v = None"

text \<open>
  \<^verbatim>\<open>[...new Set(xs)]\<close>: a \<^verbatim>\<open>Set\<close> keeps the first of the elements that are the same value;
  two objects or arrays that come from different places of a JSON text never are.
\<close>

fun same_value_zero :: "jsval \<Rightarrow> jsval \<Rightarrow> bool" where
  "same_value_zero (JArr xs) w = False"
| "same_value_zero (JObj kvs) w = False"
| "same_value_zero v w = (v = w)"

definition set_add :: "jsval list \<Rightarrow> jsval \<Rightarrow> jsval list" where
  "set_add seen x = (if list_ex (\<lambda>y. same_value_zero y x) seen then seen else seen @ [x])"

definition new_Set :: "jsval list \<Rightarrow> jsval list" where
  "new_Set xs = foldl set_add [] xs"

text \<open>
  \<^verbatim>\<open>newSubscriber.countries.join(', ')\<close> in the log line after the write: only an array has
  \<^verbatim>\<open>join\<close>, and the conversion of an element to a string raises for an object whose own
  \<^verbatim>\<open>toString\<close> property hides the inherited method.
\<close>

fun tostring_throws :: "jsval \<Rightarrow> bool" where
  "tostring_throws (JObj kvs) = (map_of kvs ''toString'' \<noteq> None)"
| "tostring_throws (JArr xs) = list_ex tostring_throws xs"
| "tostring_throws v = False"

fun join_ok :: "jsval \<Rightarrow> bool" where
  "join_ok (JArr xs) = (\<not> list_ex tostring_throws xs)"
| "join_ok v = False"

definition subscriber_obj :: "subscriber \<Rightarrow> jsval" where
  "subscriber_obj sub =
     JObj [(''email'', JStr (email sub)), (''countries'', countries sub),
           (''created_at'', created_at sub), (''active'', JBool (active sub))]"

text \<open>
  \<open>saveSubscriber\<close> returns its boolean and the disk it leaves. Its parts, in the order of
  the source: \<open>load_document\<close> (lines 117 to 122) gives the default document when the file is
  absent and the parsed file otherwise; \<open>merge_existing\<close> (lines 129 to 132) is the record
  found, after the three assignments; \<open>update_subscribers\<close> (lines 124 to 135) is the array
  \<^verbatim>\<open>data.subscribers\<close> after the merge or the \<^verbatim>\<open>push\<close>. The \<open>do\<close> block is the part of
  the \<^verbatim>\<open>try\<close> block that works in memory (\<open>None\<close>: an exception, nothing written); then come
  \<^verbatim>\<open>mkdirSync\<close> when the directory is missing, and \<^verbatim>\<open>writeFileSync\<close>. The log line that follows
  the write can still raise, and then the function returns \<^verbatim>\<open>false\<close> after writing.
\<close>

definition load_document :: "disk \<Rightarrow> jsval option" where
  "load_document d =
     (if subscribers_file d \<noteq> Absent then read_json (can_read d) (subscribers_file d)
      else Some default_document)"

definition merge_existing :: "clock \<Rightarrow> jsval \<Rightarrow> subscriber \<Rightarrow> jsval option" where
  "merge_existing clk existing newSubscriber = do {
     existing_countries \<leftarrow> spread (get_prop existing ''countries'');
     new_countries \<leftarrow> spread (countries newSubscriber);
     let existing1 = set_prop existing ''countries''
                       (JArr (new_Set (existing_countries @ new_countries)));
     let existing2 = set_prop existing1 ''active'' (JBool True);
     Some (set_prop existing2 ''updated_at'' (JStr (now_updated clk)))
   }"

definition update_subscribers :: "clock \<Rightarrow> jsval list \<Rightarrow> subscriber \<Rightarrow> jsval list option" where
  "update_subscribers clk subs newSubscriber = do {
     existingIndex \<leftarrow> findIndex_email subs (email newSubscriber);
     (case existingIndex of
        Some i \<Rightarrow> map_option (\<lambda>existing. subs[i := existing])
                    (merge_existing clk (subs ! i) newSubscriber)
      | None \<Rightarrow> Some (subs @ [subscriber_obj newSubscriber]))
   }"

definition saveSubscriber :: "clock \<Rightarrow> disk \<Rightarrow> subscriber \<Rightarrow> bool \<times> disk" where
  "saveSubscriber clk d newSubscriber =
     (case do {
        data \<leftarrow> load_document d;
        subscribers_v \<leftarrow> get data ''subscribers'';
        subs \<leftarrow> as_array subscribers_v;
        subs' \<leftarrow> update_subscribers clk subs newSubscriber;
        let data1 = set_prop data ''subscribers'' (JArr subs');
        Some (set_prop data1 ''last_updated'' (JStr (now_last_updated clk)))
      } of
        None \<Rightarrow> (False, d)
      | Some data2 \<Rightarrow>
          if \<not> data_dir d \<and> \<not> can_mkdir d then (False, d)
          else if \<not> can_write d then (False, d\<lparr>data_dir := True\<rparr>)
          else (join_ok (countries newSubscriber),
                d\<lparr>data_dir := True, subscribers_file := Saved data2\<rparr>))"

subsection \<open>\<^verbatim>\<open>handler\<close>\<close>

text \<open>
  The handler returns its response and the disk it leaves. The \<open>do\<close> block is the \<^verbatim>\<open>try\<close>
  block of lines 14 to 76, statement by statement; \<open>None\<close> is an exception that reaches the
  \<^verbatim>\<open>catch\<close> of line 77. \<open>saveSubscriber\<close> catches its own exceptions.
\<close>

definition error_response :: "nat \<Rightarrow> string \<Rightarrow> response" where
  "error_response code msg =
     \<lparr>statusCode = code, resHeaders = [], resBody = JObj [(''error'', JStr msg)]\<rparr>"

definition success_response :: "subscriber \<Rightarrow> response" where
  "success_response sub =
     \<lparr>statusCode = 200,
      resHeaders = [(''Content-Type'', ''application/json'')],
      resBody = JObj [(''success'', JBool True),
                      (''message'', JStr ''Subscription successful''),
                      (''subscriber'',
                       JObj [(''email'', JStr (email sub)), (''countries'', countries sub)])]\<rparr>"

text \<open>
  \<^verbatim>\<open>body.email?.trim().toLowerCase()\<close>: \<open>Some None\<close> is \<^verbatim>\<open>undefined\<close> (the property is missing or
  \<^verbatim>\<open>null\<close>); a value that is not a string has no \<^verbatim>\<open>trim\<close>, and the call raises.
\<close>

definition email_of_body :: "jsval \<Rightarrow> string option option" where
  "email_of_body b =
     (case get b ''email'' of
        None \<Rightarrow> None
      | Some JUndefined \<Rightarrow> Some None
      | Some JNull \<Rightarrow> Some None
      | Some (JStr s) \<Rightarrow> Some (Some (toLowerCase (trim s)))
      | Some v \<Rightarrow> None)"

text \<open>\<^verbatim>\<open>countriesRaw.map(c => c.toUpperCase())\<close>, which raises at an element that is not a string.\<close>

fun upper_all :: "jsval list \<Rightarrow> jsval list option" where
  "upper_all [] = Some []"
| "upper_all (JStr c # cs) = map_option ((#) (JStr (toUpperCase c))) (upper_all cs)"
| "upper_all (v # cs) = None"

text \<open>Lines 28 to 37: the value of \<^verbatim>\<open>countries\<close> for a given \<^verbatim>\<open>countriesRaw\<close>.\<close>

definition countries_of_raw :: "jsval \<Rightarrow> jsval option" where
  "countries_of_raw countriesRaw =
     (case countriesRaw of
        JStr s \<Rightarrow>
          (case JSON_parse s of
             Some v \<Rightarrow> Some v
           | None \<Rightarrow>
               Some (JArr (map JStr (filter (\<lambda>c. c \<noteq> [])
                      (map (\<lambda>c. toUpperCase (trim c)) (split_on (CHR '','') s))))))
      | JArr xs \<Rightarrow> map_option JArr (upper_all xs)
      | _ \<Rightarrow> Some (JArr []))"

definition handler :: "clock \<Rightarrow> disk \<Rightarrow> event \<Rightarrow> response \<times> disk" where
  "handler clk d ev =
     (if httpMethod ev \<noteq> ''POST'' then (error_response 405 ''Method not allowed'', d)
      else
        (case do {
           b \<leftarrow> parseBody (body ev) (map_of (headers ev) ''content-type'');
           e \<leftarrow> email_of_body b;
           let countriesRaw = get_prop b ''countries'';
           let createdAt = (if truthy (get_prop b ''created_at'') then get_prop b ''created_at''
                            else JStr (now_created clk));
           (case e of
              None \<Rightarrow> Some (error_response 400 ''Invalid email address'', d)
            | Some em \<Rightarrow>
                if em = [] \<or> \<not> isValidEmail (JStr em)
                then Some (error_response 400 ''Invalid email address'', d)
                else do {
                  cs \<leftarrow> countries_of_raw countriesRaw;
                  if \<not> truthy cs \<or> get_prop cs ''length'' = JNum 0
                  then Some (error_response 400 ''At least one country must be selected'', d)
                  else
                    (let sub = \<lparr>email = em, countries = cs, created_at = createdAt,
                                active = True\<rparr>;
                         (saved, d') = saveSubscriber clk d sub
                     in Some (if saved then success_response sub
                              else error_response 500 ''Failed to save subscription'', d'))
                })
         } of
           Some r \<Rightarrow> r
         | None \<Rightarrow> (error_response 500 ''Internal server error'', d)))"

section \<open>The countries function\<close>

text \<open>
  The second function of the repository: its \<^verbatim>\<open>handler\<close> (here \<open>countries_handler\<close>) and
  \<^verbatim>\<open>getDefaultCountries\<close>, lines 67 to 139 of the file that holds it in the source tree.
\<close>

definition getDefaultCountries :: jsval where
  "getDefaultCountries =
     JObj [(''countries'', JArr
       [JObj [(''code'', JStr ''NO''), (''name'', JStr ''Norway''), (''enabled'', JBool True)],
        JObj [(''code'', JStr ''SE''), (''name'', JStr ''Sweden''), (''enabled'', JBool True)],
        JObj [(''code'', JStr ''DE''), (''name'', JStr ''Germany''), (''enabled'', JBool True)],
        JObj [(''code'', JStr ''NL''), (''name'', JStr ''Netherlands''), (''enabled'', JBool True)],
        JObj [(''code'', JStr ''DK''), (''name'', JStr ''Denmark''), (''enabled'', JBool True)],
        JObj [(''code'', JStr ''FI''), (''name'', JStr ''Finland''), (''enabled'', JBool True)],
        JObj [(''code'', JStr ''FR''), (''name'', JStr ''France''), (''enabled'', JBool True)],
        JObj [(''code'', JStr ''BE''), (''name'', JStr ''Belgium''), (''enabled'', JBool True)],
        JObj [(''code'', JStr ''AT''), (''name'', JStr ''Austria''), (''enabled'', JBool True)],
        JObj [(''code'', JStr ''CH''), (''name'', JStr ''Switzerland''), (''enabled'', JBool True)],
        JObj [(''code'', JStr ''IT''), (''name'', JStr ''Italy''), (''enabled'', JBool True)],
        JObj [(''code'', JStr ''ES''), (''name'', JStr ''Spain''), (''enabled'', JBool True)],
        JObj [(''code'', JStr ''PT''), (''name'', JStr ''Portugal''), (''enabled'', JBool True)],
        JObj [(''code'', JStr ''IE''), (''name'', JStr ''Ireland''), (''enabled'', JBool True)],
        JObj [(''code'', JStr ''PL''), (''name'', JStr ''Poland''), (''enabled'', JBool True)],
        JObj [(''code'', JStr ''CZ''), (''name'', JStr ''Czech Republic''), (''enabled'', JBool True)],
        JObj [(''code'', JStr ''HU''), (''name'', JStr ''Hungary''), (''enabled'', JBool True)],
        JObj [(''code'', JStr ''EU''), (''name'', JStr ''European Union''), (''enabled'', JBool True)]])]"

text \<open>\<^verbatim>\<open>.filter(c => c.enabled !== false)\<close>, which raises at an entry that is \<^verbatim>\<open>null\<close>.\<close>

fun filter_enabled :: "jsval list \<Rightarrow> jsval list option" where
  "filter_enabled [] = Some []"
| "filter_enabled (c # cs) =
     (case get c ''enabled'' of
        None \<Rightarrow> None
      | Some en \<Rightarrow>
          map_option (\<lambda>rest. if en \<noteq> JBool False then c # rest else rest) (filter_enabled cs))"

definition enabled_entry :: "jsval \<Rightarrow> jsval" where
  "enabled_entry c =
     JObj [(''code'', get_prop c ''code''), (''name'', get_prop c ''name''),
           (''enabled'', JBool True)]"

text \<open>
  \<^verbatim>\<open>.sort((a, b) => a.name.localeCompare(b.name))\<close>. The comparison of two strings depends on
  the locale of the host, so it is a parameter \<open>localeCompare\<close>. The sort is stable; for a
  comparison that orders the names every stable sort gives the same list, here by insertion.
  Which pairs an engine compares is not fixed, and the comparison raises when the name to
  the left is not a string: the model raises for a list of two or more entries with such a
  name, and the properties below are about lists whose names are strings.
\<close>

fun insort_cmp :: "('a \<Rightarrow> 'a \<Rightarrow> int) \<Rightarrow> 'a \<Rightarrow> 'a list \<Rightarrow> 'a list" where
  "insort_cmp cmp x [] = [x]"
| "insort_cmp cmp x (y # ys) =
     (if cmp x y \<le> 0 then x # y # ys else y # insort_cmp cmp x ys)"

definition sort_cmp :: "('a \<Rightarrow> 'a \<Rightarrow> int) \<Rightarrow> 'a list \<Rightarrow> 'a list" where
  "sort_cmp cmp xs = foldr (insort_cmp cmp) xs []"

fun name_of :: "jsval \<Rightarrow> string" where
  "name_of v = (case get_prop v ''name'' of JStr s \<Rightarrow> s | _ \<Rightarrow> [])"

fun has_name :: "jsval \<Rightarrow> bool" where
  "has_name v = (case get_prop v ''name'' of JStr s \<Rightarrow> True | _ \<Rightarrow> False)"

definition sort_by_name :: "(string \<Rightarrow> string \<Rightarrow> int) \<Rightarrow> jsval list \<Rightarrow> jsval list option" where
  "sort_by_name localeCompare xs =
     (if length xs \<le> 1 then Some xs
      else if list_all has_name xs
      then Some (sort_cmp (\<lambda>a b. localeCompare (name_of a) (name_of b)) xs)
      else None)"

definition countries_handler ::
  "(string \<Rightarrow> string \<Rightarrow> int) \<Rightarrow> bool \<Rightarrow> file_state \<Rightarrow> response" where
  "countries_handler localeCompare readable config =
     (case do {
        countriesData \<leftarrow> (if config \<noteq> Absent then read_json readable config
                           else Some getDefaultCountries);
        countries_v \<leftarrow> get countriesData ''countries'';
        cs \<leftarrow> as_array countries_v;
        enabled \<leftarrow> filter_enabled cs;
        sorted \<leftarrow> sort_by_name localeCompare (map enabled_entry enabled);
        Some \<lparr>statusCode = 200,
              resHeaders = [(''Content-Type'', ''application/json''),
                            (''Cache-Control'', ''public, max-age=3600''),
                            (''Access-Control-Allow-Origin'', ''*'')],
              resBody = JObj [(''countries'', JArr sorted)]\<rparr>
      } of
        Some r \<Rightarrow> r
      | None \<Rightarrow>
          \<lparr>statusCode = 500,
           resHeaders = [(''Content-Type'', ''application/json'')],
           resBody = JObj [(''error'', JStr ''Failed to load countries'')]\<rparr>)"

text \<open>
  A comparison of strings by character code, to run the function on: on the names of the
  built-in list it orders as every locale does.
\<close>

fun compare_codes :: "string \<Rightarrow> string \<Rightarrow> int" where
  "compare_codes [] [] = 0"
| "compare_codes [] (b # bs) = - 1"
| "compare_codes (a # as) [] = 1"
| "compare_codes (a # as) (b # bs) =
     (if (of_char a :: nat) < of_char b then - 1
      else if (of_char b :: nat) < of_char a then 1
      else compare_codes as bs)"

section \<open>Notions of the specification\<close>

subsection \<open>The stored document\<close>

text \<open>
  The sequence of subscribers of a document, and the lowercase emails of its records in
  the order of the records (a record without a string \<^verbatim>\<open>email\<close> has none).
\<close>

definition subscribers_of :: "jsval \<Rightarrow> jsval list" where
  "subscribers_of data = (case get_prop data ''subscribers'' of JArr xs \<Rightarrow> xs | _ \<Rightarrow> [])"

definition lc_email :: "jsval \<Rightarrow> string list" where
  "lc_email s = (case get_prop s ''email'' of JStr e \<Rightarrow> [toLowerCase e] | _ \<Rightarrow> [])"

definition lc_emails :: "jsval list \<Rightarrow> string list" where
  "lc_emails subs = concat (map lc_email subs)"

text \<open>A record matches an email when the two are equal up to case.\<close>

definition matches :: "string \<Rightarrow> jsval \<Rightarrow> bool" where
  "matches e s = (lc_email s = [toLowerCase e])"

text \<open>
  A record as the data model has it: an object whose \<^verbatim>\<open>email\<close> is a string and whose
  \<^verbatim>\<open>countries\<close> is an array of strings; \<open>countries_list\<close> reads that array.
\<close>

fun is_str :: "jsval \<Rightarrow> bool" where
  "is_str (JStr s) = True"
| "is_str v = False"

fun str_of :: "jsval \<Rightarrow> string" where
  "str_of (JStr s) = s"
| "str_of v = []"

definition wf_record :: "jsval \<Rightarrow> bool" where
  "wf_record s =
     (case s of
        JObj kvs \<Rightarrow>
          (case (map_of kvs ''email'', map_of kvs ''countries'') of
             (Some (JStr e), Some (JArr cs)) \<Rightarrow> list_all is_str cs
           | _ \<Rightarrow> False)
      | _ \<Rightarrow> False)"

definition countries_list :: "jsval \<Rightarrow> string list" where
  "countries_list s = (case get_prop s ''countries'' of JArr cs \<Rightarrow> map str_of cs | _ \<Rightarrow> [])"

subsection \<open>The email pattern\<close>

text \<open>
  The language of a regular expression, and the pattern in the words of the specification:
  one or more characters that are neither white space nor \<^verbatim>\<open>@\<close>, then \<^verbatim>\<open>@\<close>, then one or more
  such characters, then a dot, then one or more such characters.
\<close>

definition conc :: "string set \<Rightarrow> string set \<Rightarrow> string set" where
  "conc A B = {u @ v | u v. u \<in> A \<and> v \<in> B}"

inductive_set star :: "string set \<Rightarrow> string set" for A :: "string set" where
  star_nil: "[] \<in> star A"
| star_step: "u \<in> A \<Longrightarrow> v \<in> star A \<Longrightarrow> u @ v \<in> star A"

fun lang :: "regex \<Rightarrow> string set" where
  "lang Never = {}"
| "lang Eps = {[]}"
| "lang (Cls p) = {[c] | c. p c}"
| "lang (Cat r s) = conc (lang r) (lang s)"
| "lang (Alt r s) = lang r \<union> lang s"
| "lang (Star r) = star (lang r)"
| "lang (Plus r) = conc (lang r) (star (lang r))"

definition email_shape :: "string \<Rightarrow> bool" where
  "email_shape s =
     (\<exists>l d t. s = l @ CHR ''@'' # d @ CHR ''.'' # t \<and> l \<noteq> [] \<and> d \<noteq> [] \<and> t \<noteq> [] \<and>
              list_all not_space_at l \<and> list_all not_space_at d \<and> list_all not_space_at t)"

subsection \<open>Requests\<close>

text \<open>The content types that \<open>parseBody\<close> recognizes.\<close>

definition recognized :: "string option \<Rightarrow> bool" where
  "recognized ct =
     (case ct of
        None \<Rightarrow> False
      | Some c \<Rightarrow> includes_str c ''application/json'' \<or>
                  includes_str c ''application/x-www-form-urlencoded'')"

text \<open>
  The Subscriber that the handler builds from a \<^verbatim>\<open>POST\<close> request (lines 15 to 51), when the
  request passes both validations; \<open>None\<close> when it is answered before the store is called.
\<close>

definition request_subscriber :: "clock \<Rightarrow> event \<Rightarrow> subscriber option" where
  "request_subscriber clk ev = do {
     b \<leftarrow> parseBody (body ev) (map_of (headers ev) ''content-type'');
     e \<leftarrow> email_of_body b;
     em \<leftarrow> e;
     cs \<leftarrow> countries_of_raw (get_prop b ''countries'');
     if em = [] \<or> \<not> isValidEmail (JStr em) \<or> \<not> truthy cs \<or> get_prop cs ''length'' = JNum 0
     then None
     else Some \<lparr>email = em, countries = cs,
                created_at = (if truthy (get_prop b ''created_at'') then get_prop b ''created_at''
                              else JStr (now_created clk)),
                active = True\<rparr>
   }"

text \<open>A string is trimmed when white space neither starts nor ends it.\<close>

definition trimmed :: "string \<Rightarrow> bool" where
  "trimmed s = (s = [] \<or> (\<not> is_space (hd s) \<and> \<not> is_space (last s)))"

subsection \<open>The countries configuration\<close>

text \<open>
  An entry of the configuration is an object with a string \<^verbatim>\<open>name\<close>; it is enabled unless
  its flag is \<^verbatim>\<open>false\<close>. A comparison orders the names when it is total and transitive, and
  \<open>by_name\<close> is the order of two entries under it.
\<close>

definition is_country :: "jsval \<Rightarrow> bool" where
  "is_country c = (case c of JObj kvs \<Rightarrow> has_name c | _ \<Rightarrow> False)"

definition is_enabled :: "jsval \<Rightarrow> bool" where
  "is_enabled c = (get_prop c ''enabled'' \<noteq> JBool False)"

definition orders :: "(string \<Rightarrow> string \<Rightarrow> int) \<Rightarrow> bool" where
  "orders cmp =
     ((\<forall>a b. cmp a b \<le> 0 \<or> cmp b a \<le> 0) \<and>
      (\<forall>a b c. cmp a b \<le> 0 \<longrightarrow> cmp b c \<le> 0 \<longrightarrow> cmp a c \<le> 0))"

definition by_name :: "(string \<Rightarrow> string \<Rightarrow> int) \<Rightarrow> jsval \<Rightarrow> jsval \<Rightarrow> bool" where
  "by_name cmp a b = (cmp (name_of a) (name_of b) \<le> 0)"

definition countries_headers :: "(string \<times> string) list" where
  "countries_headers =
     [(''Content-Type'', ''application/json''),
      (''Cache-Control'', ''public, max-age=3600''),
      (''Access-Control-Allow-Origin'', ''*'')]"

text \<open>The entries of a configuration, and the names of the built-in list.\<close>

definition entries_of :: "jsval \<Rightarrow> jsval list" where
  "entries_of data = (case get_prop data ''countries'' of JArr cs \<Rightarrow> cs | _ \<Rightarrow> [])"

definition default_names :: "string list" where
  "default_names =
     [''Norway'', ''Sweden'', ''Germany'', ''Netherlands'', ''Denmark'', ''Finland'', ''France'',
      ''Belgium'', ''Austria'', ''Switzerland'', ''Italy'', ''Spain'', ''Portugal'', ''Ireland'',
      ''Poland'', ''Czech Republic'', ''Hungary'', ''European Union'']"

subsection \<open>Concrete inputs\<close>

text \<open>The inputs on which the properties below are run.\<close>

definition example_clock :: clock where
  "example_clock =
     \<lparr>now_created = ''2024-01-01T00:00:00.000Z'',
      now_updated = ''2024-01-02T00:00:00.000Z'',
      now_last_updated = ''2024-01-03T00:00:00.000Z''\<rparr>"

definition empty_disk :: disk where
  "empty_disk =
     \<lparr>subscribers_file = Absent, data_dir = False, can_read = True, can_mkdir = True,
      can_write = True\<rparr>"

definition json_post :: "string \<Rightarrow> event" where
  "json_post b =
     \<lparr>httpMethod = ''POST'', headers = [(''content-type'', ''application/json'')],
      body = Some b\<rparr>"

definition form_post :: "string \<Rightarrow> event" where
  "form_post b =
     \<lparr>httpMethod = ''POST'',
      headers = [(''content-type'', ''application/x-www-form-urlencoded'')],
      body = Some b\<rparr>"

definition example_record :: jsval where
  "example_record =
     JObj [(''email'', JStr ''a@example.com''),
           (''countries'', JArr [JStr ''NO'', JStr ''SE'']),
           (''created_at'', JStr ''2023-12-31T00:00:00.000Z''),
           (''active'', JBool False)]"

definition example_document :: jsval where
  "example_document =
     JObj [(''subscribers'', JArr [example_record]),
           (''last_updated'', JStr ''2023-12-31T00:00:00.000Z''),
           (''version'', JStr ''1.0'')]"

definition example_disk :: disk where
  "example_disk = empty_disk\<lparr>subscribers_file := Saved example_document, data_dir := True\<rparr>"

definition example_subscriber :: "string \<Rightarrow> string list \<Rightarrow> subscriber" where
  "example_subscriber e cs =
     \<lparr>email = e, countries = JArr (map JStr cs),
      created_at = JStr ''2024-01-01T00:00:00.000Z'', active = True\<rparr>"

definition corrupt_disk :: disk where
  \<open>corrupt_disk =
     empty_disk\<lparr>subscribers_file := Text ''{ "subscribers": [ '', data_dir := True\<rparr>\<close>

definition example_config :: file_state where
  \<open>example_config =
     Text ''{"countries": [{"code": "SE", "name": "Sweden"}, {"code": "XX", "name": "Atlantis", "enabled": false}, {"code": "NO", "name": "Norway", "enabled": true}]}''\<close>

section \<open>Auxiliary facts\<close>

subsection \<open>Records and the lookup by email\<close>

lemma get_email_obj:
  "get s ''email'' = Some (JStr se) \<Longrightarrow> \<exists>kvs. s = JObj kvs"
  by (cases s) (auto split: if_splits)

lemma get_eq_Some: "get s k = Some v \<Longrightarrow> get_prop s k = v"
  by (cases s) auto

lemma findIndex_found:
  "findIndex_email subs e = Some (Some i) \<Longrightarrow>
     i < length subs \<and>
     (\<exists>kvs se. subs ! i = JObj kvs \<and> get_prop (subs ! i) ''email'' = JStr se \<and> toLowerCase se = toLowerCase e) \<and>
     (\<forall>j<i. \<exists>se. get_prop (subs ! j) ''email'' = JStr se \<and> toLowerCase se \<noteq> toLowerCase e)"
proof (induction subs arbitrary: i)
  case Nil
  then show ?case by simp
next
  case (Cons s ss)
  from Cons.prems obtain se where se: "get s ''email'' = Some (JStr se)"
    by (auto split: option.splits jsval.splits)
  then obtain kvs where kvs: "s = JObj kvs" using get_email_obj by blast
  have gp: "get_prop s ''email'' = JStr se" using se by (rule get_eq_Some)
  show ?case
  proof (cases "toLowerCase se = toLowerCase e")
    case True
    with Cons.prems se have "i = 0" by simp
    with True kvs gp show ?thesis by auto
  next
    case False
    with Cons.prems se obtain i' where i': "findIndex_email ss e = Some (Some i')" "i = Suc i'"
      by auto
    from Cons.IH [OF i'(1)] i'(2) False gp show ?thesis
      by (auto simp: less_Suc_eq_0_disj)
  qed
qed

lemma findIndex_none:
  "findIndex_email subs e = Some None \<Longrightarrow>
     \<forall>s\<in>set subs. \<exists>se. get_prop s ''email'' = JStr se \<and> toLowerCase se \<noteq> toLowerCase e"
proof (induction subs)
  case Nil
  then show ?case by simp
next
  case (Cons s ss)
  from Cons.prems obtain se where se: "get s ''email'' = Some (JStr se)"
    by (auto split: option.splits jsval.splits)
  have gp: "get_prop s ''email'' = JStr se" using se by (rule get_eq_Some)
  from Cons.prems se have ne: "toLowerCase se \<noteq> toLowerCase e" and rest: "findIndex_email ss e = Some None"
    by (auto split: if_splits)
  from Cons.IH [OF rest] gp ne show ?case by auto
qed

subsection \<open>One call of \<open>saveSubscriber\<close>\<close>

lemma saveSubscriber_success:
  assumes "saveSubscriber clk d sub = (True, d')"
  shows "\<exists>kvs subs subs'.
           load_document d = Some (JObj kvs) \<and>
           map_of kvs ''subscribers'' = Some (JArr subs) \<and>
           update_subscribers clk subs sub = Some subs' \<and>
           d' = d\<lparr>data_dir := True,
                  subscribers_file :=
                    Saved (JObj (AList.update ''last_updated'' (JStr (now_last_updated clk))
                             (AList.update ''subscribers'' (JArr subs') kvs)))\<rparr>"
proof -
  from assms obtain data sv subs subs' where
    ld: "load_document d = Some data" and
    sv: "get data ''subscribers'' = Some sv" and
    ar: "as_array sv = Some subs" and
    up: "update_subscribers clk subs sub = Some subs'" and
    d': "d' = d\<lparr>data_dir := True, subscribers_file := Saved (set_prop (set_prop data ''subscribers'' (JArr subs')) ''last_updated'' (JStr (now_last_updated clk)))\<rparr>"
    by (auto simp: saveSubscriber_def Let_def split: option.splits Option.bind_splits if_splits)
  from ar have sv': "sv = JArr subs" by (cases sv) auto
  with sv obtain kvs where kvs: "data = JObj kvs" "map_of kvs ''subscribers'' = Some (JArr subs)"
    by (cases data) (auto split: if_splits option.splits)
  with ld up d' show ?thesis by auto
qed

lemma saveSubscriber_returns_true:
  assumes "load_document d = Some (JObj kvs)"
    and "map_of kvs ''subscribers'' = Some (JArr subs)"
    and "update_subscribers clk subs sub = Some subs'"
    and "data_dir d \<or> can_mkdir d" and "can_write d" and "join_ok (countries sub)"
  shows "saveSubscriber clk d sub =
           (True, d\<lparr>data_dir := True,
                  subscribers_file :=
                    Saved (JObj (AList.update ''last_updated'' (JStr (now_last_updated clk))
                             (AList.update ''subscribers'' (JArr subs') kvs)))\<rparr>)"
  using assms by (auto simp: saveSubscriber_def Let_def)

lemma update_subscribers_cases:
  assumes "update_subscribers clk subs sub = Some subs'"
  shows "(findIndex_email subs (email sub) = Some None \<and> subs' = subs @ [subscriber_obj sub]) \<or>
         (\<exists>i m. findIndex_email subs (email sub) = Some (Some i) \<and>
                 merge_existing clk (subs ! i) sub = Some m \<and> subs' = subs[i := m])"
  using assms
  by (auto simp: update_subscribers_def split: Option.bind_splits option.splits)

lemma merge_existing_obj:
  assumes "merge_existing clk (JObj kvs) sub = Some m"
  shows "\<exists>old new.
           spread (get_prop (JObj kvs) ''countries'') = Some old \<and>
           spread (countries sub) = Some new \<and>
           m = JObj (AList.update ''updated_at'' (JStr (now_updated clk))
                 (AList.update ''active'' (JBool True)
                    (AList.update ''countries'' (JArr (new_Set (old @ new))) kvs)))"
  using assms
  by (auto simp: merge_existing_def Let_def split: Option.bind_splits)

lemma merge_existing_frame:
  assumes "merge_existing clk (JObj kvs) sub = Some m"
    and "k \<noteq> ''countries''" "k \<noteq> ''active''" "k \<noteq> ''updated_at''"
  shows "get_prop m k = get_prop (JObj kvs) k"
  using merge_existing_obj [OF assms(1)] assms(2-)
  by (auto simp: update_conv')

lemma lc_emails_update:
  assumes "i < length subs" "get_prop m ''email'' = get_prop (subs ! i) ''email''"
  shows "lc_emails (subs[i := m]) = lc_emails subs"
proof -
  have eq: "lc_email m = map lc_email subs ! i"
    using assms by (simp add: lc_email_def)
  have "map lc_email (subs[i := m]) = (map lc_email subs)[i := lc_email m]"
    by (rule map_update)
  also have "\<dots> = (map lc_email subs)[i := map lc_email subs ! i]"
    by (simp only: eq)
  also have "\<dots> = map lc_email subs"
    by (rule list_update_id)
  finally show ?thesis by (simp add: lc_emails_def)
qed

lemma lc_email_subscriber_obj: "lc_email (subscriber_obj sub) = [toLowerCase (email sub)]"
  by (simp add: lc_email_def subscriber_obj_def)

subsection \<open>Well-formed records and the merge\<close>

lemma map_JStr_str_of: "list_all is_str cs \<Longrightarrow> map JStr (map str_of cs) = cs"
proof (induction cs)
  case Nil
  then show ?case by simp
next
  case (Cons c cs)
  then show ?case by (cases c) auto
qed

lemma wf_recordD:
  assumes "wf_record s"
  obtains kvs e where "s = JObj kvs" "map_of kvs ''email'' = Some (JStr e)"
    "map_of kvs ''countries'' = Some (JArr (map JStr (countries_list s)))"
proof -
  from assms obtain kvs e cs where s: "s = JObj kvs" and e: "map_of kvs ''email'' = Some (JStr e)"
    and c: "map_of kvs ''countries'' = Some (JArr cs)" and cs: "list_all is_str cs"
    by (auto simp: wf_record_def split: jsval.splits option.splits)
  have "countries_list s = map str_of cs"
    using s c by (simp add: countries_list_def)
  with map_JStr_str_of [OF cs] c have "map_of kvs ''countries'' = Some (JArr (map JStr (countries_list s)))"
    by simp
  with s e that show thesis by blast
qed

lemma list_ex_same_value_zero_strs:
  "list_ex (\<lambda>y. same_value_zero y (JStr x)) (map JStr acc) \<longleftrightarrow> x \<in> set acc"
  by (induction acc) auto

lemma foldl_set_add_strs:
  "distinct acc \<Longrightarrow>
   \<exists>cs. foldl set_add (map JStr acc) (map JStr xs) = map JStr cs \<and> distinct cs \<and>
        set cs = set acc \<union> set xs"
proof (induction xs arbitrary: acc)
  case Nil
  then show ?case by auto
next
  case (Cons x xs)
  show ?case
  proof (cases "x \<in> set acc")
    case True
    then have "set_add (map JStr acc) (JStr x) = map JStr acc"
      by (simp add: set_add_def list_ex_same_value_zero_strs)
    with Cons.IH [OF Cons.prems] True show ?thesis by auto
  next
    case False
    then have "set_add (map JStr acc) (JStr x) = map JStr (acc @ [x])"
      by (simp add: set_add_def list_ex_same_value_zero_strs)
    moreover have "distinct (acc @ [x])" using False Cons.prems by simp
    ultimately show ?thesis using Cons.IH [of "acc @ [x]"] by auto
  qed
qed

lemma new_Set_strs:
  "\<exists>cs. new_Set (map JStr xs) = map JStr cs \<and> distinct cs \<and> set cs = set xs"
  using foldl_set_add_strs [of "[]" xs] by (simp add: new_Set_def)

lemma join_ok_strs: "join_ok (JArr (map JStr xs))"
  by (induction xs) (auto simp: list_ex_iff)

lemma merge_existing_wf:
  assumes "wf_record s" and "countries sub = JArr (map JStr new)"
  shows "\<exists>r. merge_existing clk s sub = Some r \<and> wf_record r \<and>
             distinct (countries_list r) \<and>
             set (countries_list r) = set (countries_list s) \<union> set new \<and>
             get_prop r ''active'' = JBool True \<and>
             get_prop r ''updated_at'' = JStr (now_updated clk) \<and>
             get_prop r ''email'' = get_prop s ''email'' \<and>
             get_prop r ''created_at'' = get_prop s ''created_at''"
proof -
  from assms(1) obtain kvs e where s: "s = JObj kvs" and e: "map_of kvs ''email'' = Some (JStr e)"
    and c: "map_of kvs ''countries'' = Some (JArr (map JStr (countries_list s)))"
    by (rule wf_recordD)
  obtain cs where cs: "new_Set (map JStr (countries_list s @ new)) = map JStr cs"
    "distinct cs" "set cs = set (countries_list s) \<union> set new"
    using new_Set_strs [of "countries_list s @ new"] by auto
  let ?r = "JObj (AList.update ''updated_at'' (JStr (now_updated clk))
                 (AList.update ''active'' (JBool True)
                    (AList.update ''countries'' (JArr (map JStr cs)) kvs)))"
  have m: "merge_existing clk s sub = Some ?r"
    using s c assms(2) cs(1) by (simp add: merge_existing_def)
  have cl: "countries_list ?r = cs"
    by (simp add: countries_list_def update_conv' comp_def)
  have wf: "wf_record ?r"
    using e by (simp add: wf_record_def update_conv' list_all_iff)
  show ?thesis
    using m wf cl cs(2,3) s by (auto simp: update_conv')
qed

lemma matches_iff:
  "matches e s \<longleftrightarrow> (\<exists>se. get_prop s ''email'' = JStr se \<and> toLowerCase se = toLowerCase e)"
  by (auto simp: matches_def lc_email_def split: jsval.splits)

lemma wf_record_get_email:
  "wf_record s \<Longrightarrow> \<exists>se. get s ''email'' = Some (JStr se)"
  by (erule wf_recordD) simp

lemma findIndex_no_match:
  "list_all wf_record subs \<Longrightarrow> \<forall>s\<in>set subs. \<not> matches e s \<Longrightarrow> findIndex_email subs e = Some None"
proof (induction subs)
  case Nil
  then show ?case by simp
next
  case (Cons s ss)
  from Cons.prems(1) obtain se where se: "get s ''email'' = Some (JStr se)"
    using wf_record_get_email by auto
  then have "get_prop s ''email'' = JStr se" by (rule get_eq_Some)
  with Cons.prems(2) have "toLowerCase se \<noteq> toLowerCase e"
    by (auto simp: matches_iff)
  with Cons se show ?case by simp
qed

lemma findIndex_first_match:
  assumes "list_all wf_record pre" "\<forall>s\<in>set pre. \<not> matches e s" "wf_record s" "matches e s"
  shows "findIndex_email (pre @ s # post) e = Some (Some (length pre))"
  using assms(1,2)
proof (induction pre)
  case Nil
  from assms(3) obtain se where se: "get s ''email'' = Some (JStr se)"
    using wf_record_get_email by auto
  then have "get_prop s ''email'' = JStr se" by (rule get_eq_Some)
  with assms(4) have "toLowerCase se = toLowerCase e"
    by (auto simp: matches_iff)
  with se show ?case by simp
next
  case (Cons p pre)
  from Cons.prems(1) obtain se where se: "get p ''email'' = Some (JStr se)"
    using wf_record_get_email by auto
  then have "get_prop p ''email'' = JStr se" by (rule get_eq_Some)
  with Cons.prems(2) have "toLowerCase se \<noteq> toLowerCase e"
    by (auto simp: matches_iff)
  with Cons se show ?case by simp
qed

lemma subscribers_of_nonempty:
  assumes "subscribers_of data \<noteq> []"
  obtains kvs where "data = JObj kvs" "map_of kvs ''subscribers'' = Some (JArr (subscribers_of data))"
  using assms
  by (cases data) (auto simp: subscribers_of_def split: option.splits jsval.splits if_splits)

lemma not_matches_lc_emails:
  "toLowerCase e \<notin> set (lc_emails subs) \<Longrightarrow> \<forall>s\<in>set subs. \<not> matches e s"
  by (auto simp: lc_emails_def matches_def)

lemma merge_on_match:
  assumes ld: "load_document d = Some data"
    and wf: "list_all wf_record (subscribers_of data)"
    and ex: "\<exists>s\<in>set (subscribers_of data). matches (email sub) s"
    and new: "countries sub = JArr (map JStr new)"
    and io: "data_dir d \<or> can_mkdir d" "can_write d"
  shows "\<exists>i data' r.
           i < length (subscribers_of data) \<and>
           matches (email sub) (subscribers_of data ! i) \<and>
           saveSubscriber clk d sub =
             (True, d\<lparr>data_dir := True, subscribers_file := Saved data'\<rparr>) \<and>
           subscribers_of data' = (subscribers_of data)[i := r] \<and>
           lc_emails (subscribers_of data') = lc_emails (subscribers_of data) \<and>
           wf_record r \<and> matches (email sub) r \<and>
           distinct (countries_list r) \<and>
           set (countries_list r) = set (countries_list (subscribers_of data ! i)) \<union> set new \<and>
           get_prop r ''active'' = JBool True"
proof -
  let ?subs = "subscribers_of data"
  from ex have "?subs \<noteq> []" by auto
  then obtain kvs where data: "data = JObj kvs"
    and sv: "map_of kvs ''subscribers'' = Some (JArr ?subs)"
    by (rule subscribers_of_nonempty)
  from ex obtain pre s post where split: "?subs = pre @ s # post" and ms: "matches (email sub) s"
    and nm: "\<forall>y\<in>set pre. \<not> matches (email sub) y"
    using split_list_first_prop [of ?subs "matches (email sub)"] by blast
  let ?i = "length pre"
  from wf split have wfpre: "list_all wf_record pre" and wfs: "wf_record s"
    by simp_all
  have fi: "findIndex_email ?subs (email sub) = Some (Some ?i)"
    unfolding split by (rule findIndex_first_match [OF wfpre nm wfs ms])
  have nth: "?subs ! ?i = s" by (simp add: split)
  have lt: "?i < length ?subs" by (simp add: split)
  from merge_existing_wf [OF wfs new, of clk] obtain r where
    r: "merge_existing clk s sub = Some r" and wfr: "wf_record r"
    and dist: "distinct (countries_list r)"
    and cset: "set (countries_list r) = set (countries_list s) \<union> set new"
    and act: "get_prop r ''active'' = JBool True"
    and em: "get_prop r ''email'' = get_prop s ''email''"
    by blast
  have up: "update_subscribers clk ?subs sub = Some (?subs[?i := r])"
    using fi r nth by (simp add: update_subscribers_def)
  let ?data' = "JObj (AList.update ''last_updated'' (JStr (now_last_updated clk))
                  (AList.update ''subscribers'' (JArr (?subs[?i := r])) kvs))"
  have sv': "saveSubscriber clk d sub =
          (True, d\<lparr>data_dir := True, subscribers_file := Saved ?data'\<rparr>)"
    using saveSubscriber_returns_true [OF ld [unfolded data] sv up io(1) io(2)] new join_ok_strs
    by simp
  have so: "subscribers_of ?data' = ?subs[?i := r]"
    by (simp add: subscribers_of_def update_conv')
  have lce: "lc_emails (?subs[?i := r]) = lc_emails ?subs"
    using lc_emails_update [OF lt] em nth by simp
  have mr: "matches (email sub) r"
    using ms em by (simp add: matches_iff)
  show ?thesis
    using lt ms nth sv' so lce wfr mr dist cset act
    by (intro exI [of _ ?i] exI [of _ ?data'] exI [of _ r]) simp
qed

lemma insert_when_absent:
  assumes ld: "load_document d = Some (JObj kvs)"
    and sv: "map_of kvs ''subscribers'' = Some (JArr subs)"
    and wf: "list_all wf_record subs"
    and fresh: "toLowerCase (email sub) \<notin> set (lc_emails subs)"
    and new: "countries sub = JArr (map JStr new)"
    and io: "data_dir d \<or> can_mkdir d" "can_write d"
  shows "saveSubscriber clk d sub =
           (True, d\<lparr>data_dir := True,
                    subscribers_file :=
                      Saved (JObj (AList.update ''last_updated'' (JStr (now_last_updated clk))
                               (AList.update ''subscribers''
                                  (JArr (subs @ [subscriber_obj sub])) kvs)))\<rparr>)"
proof -
  have "findIndex_email subs (email sub) = Some None"
    using findIndex_no_match [OF wf not_matches_lc_emails [OF fresh]] .
  then have up: "update_subscribers clk subs sub = Some (subs @ [subscriber_obj sub])"
    by (simp add: update_subscribers_def)
  show ?thesis
    using saveSubscriber_returns_true [OF ld sv up io] new join_ok_strs by simp
qed

lemma wf_subscriber_obj:
  "countries sub = JArr (map JStr new) \<Longrightarrow> wf_record (subscriber_obj sub)"
  by (simp add: wf_record_def subscriber_obj_def list_all_iff)

lemma countries_list_subscriber_obj:
  "countries sub = JArr (map JStr new) \<Longrightarrow> countries_list (subscriber_obj sub) = new"
  by (simp add: countries_list_def subscriber_obj_def comp_def)

lemma matches_subscriber_obj:
  "matches e (subscriber_obj sub) \<longleftrightarrow> toLowerCase (email sub) = toLowerCase e"
  by (simp add: matches_def lc_email_subscriber_obj)

lemma subscribe_twice:
  assumes ld: "load_document d = Some (JObj kvs)"
    and sv: "map_of kvs ''subscribers'' = Some (JArr subs)"
    and wf: "list_all wf_record subs"
    and fresh: "toLowerCase (email sub1) \<notin> set (lc_emails subs)"
    and same: "toLowerCase (email sub2) = toLowerCase (email sub1)"
    and c1: "countries sub1 = JArr (map JStr xs)"
    and c2: "countries sub2 = JArr (map JStr ys)"
    and io: "data_dir d \<or> can_mkdir d" "can_write d" "can_read d"
  shows "\<exists>d1 d2 data2 r.
           saveSubscriber clk d sub1 = (True, d1) \<and>
           saveSubscriber clk' d1 sub2 = (True, d2) \<and>
           subscribers_file d2 = Saved data2 \<and>
           subscribers_of data2 = subs @ [r] \<and>
           filter (matches (email sub1)) (subscribers_of data2) = [r] \<and>
           distinct (countries_list r) \<and>
           set (countries_list r) = set xs \<union> set ys \<and>
           get_prop r ''active'' = JBool True"
proof -
  let ?kvs1 = "AList.update ''last_updated'' (JStr (now_last_updated clk))
                 (AList.update ''subscribers'' (JArr (subs @ [subscriber_obj sub1])) kvs)"
  let ?d1 = "d\<lparr>data_dir := True, subscribers_file := Saved (JObj ?kvs1)\<rparr>"
  have s1: "saveSubscriber clk d sub1 = (True, ?d1)"
    by (rule insert_when_absent [OF ld sv wf fresh c1 io(1,2)])
  have ld1: "load_document ?d1 = Some (JObj ?kvs1)"
    using io(3) by (simp add: load_document_def read_json_def)
  have so1: "subscribers_of (JObj ?kvs1) = subs @ [subscriber_obj sub1]"
    by (simp add: subscribers_of_def update_conv')
  have wf1: "list_all wf_record (subscribers_of (JObj ?kvs1))"
    using wf wf_subscriber_obj [OF c1] by (simp add: so1)
  have ex1: "\<exists>s\<in>set (subscribers_of (JObj ?kvs1)). matches (email sub2) s"
    using same by (simp add: so1 matches_subscriber_obj)
  have io1: "data_dir ?d1 \<or> can_mkdir ?d1" "can_write ?d1"
    using io by simp_all
  from merge_on_match [OF ld1 wf1 ex1 c2 io1, of clk'] obtain i data2 r where
    i: "i < length (subscribers_of (JObj ?kvs1))"
    and mi: "matches (email sub2) (subscribers_of (JObj ?kvs1) ! i)"
    and s2: "saveSubscriber clk' ?d1 sub2 =
               (True, ?d1\<lparr>data_dir := True, subscribers_file := Saved data2\<rparr>)"
    and so2: "subscribers_of data2 = (subscribers_of (JObj ?kvs1))[i := r]"
    and mr: "matches (email sub2) r"
    and dist: "distinct (countries_list r)"
    and cset: "set (countries_list r) =
                 set (countries_list (subscribers_of (JObj ?kvs1) ! i)) \<union> set ys"
    and act: "get_prop r ''active'' = JBool True"
    by blast
  have nomatch: "\<forall>s\<in>set subs. \<not> matches (email sub2) s"
    using not_matches_lc_emails [of "email sub2" subs] fresh same by simp
  have ieq: "i = length subs"
  proof (rule ccontr)
    assume "i \<noteq> length subs"
    with i have "i < length subs" by (simp add: so1)
    then have "(subs @ [subscriber_obj sub1]) ! i \<in> set subs"
      by (simp add: nth_append)
    with mi nomatch show False by (simp add: so1)
  qed
  have so2': "subscribers_of data2 = subs @ [r]"
    using so2 ieq by (simp add: so1)
  have meq: "matches (email sub1) = matches (email sub2)"
    using same by (simp add: matches_def fun_eq_iff)
  have filt: "filter (matches (email sub1)) (subscribers_of data2) = [r]"
    using nomatch mr by (simp add: so2' meq)
  have cset': "set (countries_list r) = set xs \<union> set ys"
    using cset ieq by (simp add: so1 countries_list_subscriber_obj [OF c1])
  show ?thesis
    using s1 s2 so2' filt dist cset' act
    by (intro exI [of _ ?d1] exI [of _ "?d1\<lparr>data_dir := True, subscribers_file := Saved data2\<rparr>"]
          exI [of _ data2] exI [of _ r]) simp
qed

subsection \<open>The matcher and the language of a regular expression\<close>

lemma nil_in_conc: "[] \<in> conc A B \<longleftrightarrow> [] \<in> A \<and> [] \<in> B"
  by (auto simp: conc_def)

lemma cons_in_conc:
  "c # w \<in> conc A B \<longleftrightarrow>
     (\<exists>u v. w = u @ v \<and> c # u \<in> A \<and> v \<in> B) \<or> ([] \<in> A \<and> c # w \<in> B)"
proof
  assume "c # w \<in> conc A B"
  then obtain u v where uv: "c # w = u @ v" "u \<in> A" "v \<in> B"
    by (auto simp: conc_def)
  show "(\<exists>u v. w = u @ v \<and> c # u \<in> A \<and> v \<in> B) \<or> ([] \<in> A \<and> c # w \<in> B)"
  proof (cases u)
    case Nil
    with uv show ?thesis by simp
  next
    case (Cons a u')
    with uv show ?thesis by auto
  qed
next
  assume "(\<exists>u v. w = u @ v \<and> c # u \<in> A \<and> v \<in> B) \<or> ([] \<in> A \<and> c # w \<in> B)"
  then show "c # w \<in> conc A B"
  proof
    assume "\<exists>u v. w = u @ v \<and> c # u \<in> A \<and> v \<in> B"
    then obtain u v where "w = u @ v" "c # u \<in> A" "v \<in> B" by blast
    then have "(c # u) @ v \<in> conc A B" unfolding conc_def by blast
    with \<open>w = u @ v\<close> show ?thesis by simp
  next
    assume "[] \<in> A \<and> c # w \<in> B"
    then have "[] @ (c # w) \<in> conc A B" unfolding conc_def by blast
    then show ?thesis by simp
  qed
qed

lemma cons_in_star:
  "c # w \<in> star A \<longleftrightarrow> (\<exists>u v. w = u @ v \<and> c # u \<in> A \<and> v \<in> star A)"
proof
  assume "c # w \<in> star A"
  then show "\<exists>u v. w = u @ v \<and> c # u \<in> A \<and> v \<in> star A"
  proof (induction "c # w" rule: star.induct)
    case (star_step u v)
    show ?case
    proof (cases u)
      case Nil
      with star_step show ?thesis by simp
    next
      case (Cons a u')
      with star_step.hyps show ?thesis by auto
    qed
  qed
next
  assume "\<exists>u v. w = u @ v \<and> c # u \<in> A \<and> v \<in> star A"
  then obtain u v where "w = u @ v" "c # u \<in> A" "v \<in> star A" by blast
  then have "(c # u) @ v \<in> star A" by (intro star_step)
  with \<open>w = u @ v\<close> show "c # w \<in> star A" by simp
qed

lemma nullable_lang: "nullable r \<longleftrightarrow> [] \<in> lang r"
  by (induction r) (auto simp: nil_in_conc star_nil)

lemma in_conc_iff: "w \<in> conc A B \<longleftrightarrow> (\<exists>u v. w = u @ v \<and> u \<in> A \<and> v \<in> B)"
  by (auto simp: conc_def)

lemma deriv_lang: "w \<in> lang (deriv c r) \<longleftrightarrow> c # w \<in> lang r"
proof (induction r arbitrary: w)
  case (Cat r s)
  have "w \<in> conc (lang (deriv c r)) (lang s) \<longleftrightarrow>
          (\<exists>u v. w = u @ v \<and> c # u \<in> lang r \<and> v \<in> lang s)"
    by (simp add: in_conc_iff Cat.IH(1))
  then show ?case
    by (simp add: cons_in_conc nullable_lang Cat.IH(2))
next
  case (Star r)
  have "w \<in> conc (lang (deriv c r)) (star (lang r)) \<longleftrightarrow>
          (\<exists>u v. w = u @ v \<and> c # u \<in> lang r \<and> v \<in> star (lang r))"
    by (simp add: in_conc_iff Star.IH)
  then show ?case
    by (simp add: cons_in_star)
next
  case (Plus r)
  have "w \<in> conc (lang (deriv c r)) (star (lang r)) \<longleftrightarrow>
          (\<exists>u v. w = u @ v \<and> c # u \<in> lang r \<and> v \<in> star (lang r))"
    by (simp add: in_conc_iff Plus.IH)
  then show ?case
    by (auto simp: cons_in_conc cons_in_star)
qed auto

lemma regex_test_lang: "regex_test r s \<longleftrightarrow> s \<in> lang r"
  by (induction s arbitrary: r) (simp_all add: nullable_lang deriv_lang)

lemma star_cls: "w \<in> star {[c] | c. p c} \<longleftrightarrow> list_all p w"
proof
  assume "w \<in> star {[c] | c. p c}"
  then show "list_all p w"
    by (induction rule: star.induct) auto
next
  assume "list_all p w"
  then show "w \<in> star {[c] | c. p c}"
  proof (induction w)
    case Nil
    show ?case by (rule star_nil)
  next
    case (Cons a w)
    then have "[a] @ w \<in> star {[c] | c. p c}"
      by (intro star_step) auto
    then show ?case by simp
  qed
qed

lemma plus_cls: "w \<in> lang (Plus (Cls p)) \<longleftrightarrow> w \<noteq> [] \<and> list_all p w"
proof (cases w)
  case Nil
  then show ?thesis by (simp add: nil_in_conc)
next
  case (Cons a v)
  then show ?thesis by (auto simp: cons_in_conc star_cls)
qed

lemma cat_plus_cls:
  "w \<in> lang (Cat (Plus (Cls p)) r) \<longleftrightarrow>
     (\<exists>u v. w = u @ v \<and> (u \<noteq> [] \<and> list_all p u) \<and> v \<in> lang r)"
  by (simp only: lang.simps(4) in_conc_iff plus_cls)

lemma cat_chr: "w \<in> lang (Cat (Cls (\<lambda>c. c = x)) r) \<longleftrightarrow> (\<exists>v. w = x # v \<and> v \<in> lang r)"
  by (auto simp: conc_def)

lemma emailRegex_lang: "s \<in> lang emailRegex \<longleftrightarrow> email_shape s"
proof -
  have "s \<in> lang emailRegex \<longleftrightarrow>
          (\<exists>l r1. s = l @ r1 \<and> (l \<noteq> [] \<and> list_all not_space_at l) \<and>
             (\<exists>r2. r1 = CHR ''@'' # r2 \<and>
                (\<exists>d r3. r2 = d @ r3 \<and> (d \<noteq> [] \<and> list_all not_space_at d) \<and>
                   (\<exists>t. r3 = CHR ''.'' # t \<and> t \<noteq> [] \<and> list_all not_space_at t))))"
    unfolding emailRegex_def
    by (simp only: cat_plus_cls cat_chr plus_cls)
  also have "\<dots> \<longleftrightarrow> email_shape s"
    unfolding email_shape_def by blast
  finally show ?thesis .
qed

lemma isValidEmail_shape: "isValidEmail (JStr s) \<longleftrightarrow> email_shape s"
proof -
  have "email_shape s \<Longrightarrow> s \<noteq> []"
    by (auto simp: email_shape_def)
  then show ?thesis
    by (auto simp: regex_test_lang emailRegex_lang)
qed

lemma email_shape_at: "email_shape s \<Longrightarrow> CHR ''@'' \<in> set s"
  by (auto simp: email_shape_def)

lemma email_shape_dot:
  assumes "email_shape s"
  shows "CHR ''.'' \<in> set (dropWhile (\<lambda>c. c \<noteq> CHR ''@'') s)"
proof -
  from assms obtain l d t where s: "s = l @ CHR ''@'' # d @ CHR ''.'' # t"
    and l: "list_all not_space_at l"
    by (auto simp: email_shape_def)
  from l have "\<And>x. x \<in> set l \<Longrightarrow> x \<noteq> CHR ''@''"
    by (auto simp: list_all_iff not_space_at_def)
  then have "dropWhile (\<lambda>c. c \<noteq> CHR ''@'') s = CHR ''@'' # d @ CHR ''.'' # t"
    unfolding s by (simp add: dropWhile_append2)
  then show ?thesis by simp
qed

subsection \<open>Sorting and the countries function\<close>

lemma mset_insort_cmp: "mset (insort_cmp cmp x xs) = add_mset x (mset xs)"
  by (induction xs) auto

lemma mset_sort_cmp: "mset (sort_cmp cmp xs) = mset xs"
  by (induction xs) (auto simp: sort_cmp_def mset_insort_cmp)

lemma set_insort_cmp: "set (insort_cmp cmp x xs) = insert x (set xs)"
  by (induction xs) auto

lemma sorted_insort_cmp:
  assumes total: "\<And>a b. le a b \<or> le b a"
    and trans: "\<And>a b c. le a b \<Longrightarrow> le b c \<Longrightarrow> le a c"
    and le: "\<And>a b. le a b \<longleftrightarrow> cmp a b \<le> 0"
  shows "sorted_wrt le xs \<Longrightarrow> sorted_wrt le (insort_cmp cmp x xs)"
proof (induction xs)
  case Nil
  then show ?case by simp
next
  case (Cons y ys)
  show ?case
  proof (cases "cmp x y \<le> 0")
    case True
    then have xy: "le x y" by (simp add: le)
    have "\<forall>z\<in>set ys. le x z"
      using Cons.prems xy trans by auto
    with True xy Cons.prems show ?thesis by simp
  next
    case False
    then have "le y x" using total [of x y] by (simp add: le)
    with False Cons show ?thesis
      by (auto simp: set_insort_cmp)
  qed
qed

lemma sorted_sort_cmp:
  assumes total: "\<And>a b. le a b \<or> le b a"
    and trans: "\<And>a b c. le a b \<Longrightarrow> le b c \<Longrightarrow> le a c"
    and le: "\<And>a b. le a b \<longleftrightarrow> cmp a b \<le> 0"
  shows "sorted_wrt le (sort_cmp cmp xs)"
proof (induction xs)
  case Nil
  show ?case by (simp add: sort_cmp_def)
next
  case (Cons x xs)
  have "sort_cmp cmp (x # xs) = insort_cmp cmp x (sort_cmp cmp xs)"
    by (simp add: sort_cmp_def)
  with sorted_insort_cmp [of le cmp, OF total trans le Cons.IH] show ?case
    by simp
qed

lemma filter_enabled_objs:
  "list_all is_country cs \<Longrightarrow> filter_enabled cs = Some (filter is_enabled cs)"
proof (induction cs)
  case Nil
  show ?case by simp
next
  case (Cons c cs)
  from Cons.prems obtain kvs where "c = JObj kvs"
    by (auto simp: is_country_def split: jsval.splits)
  with Cons show ?case by (simp add: is_enabled_def)
qed

lemma has_name_enabled_entry: "is_country c \<Longrightarrow> has_name (enabled_entry c)"
  by (auto simp: is_country_def enabled_entry_def split: jsval.splits)

lemma sort_by_name_sorted:
  assumes "orders cmp" "list_all has_name xs"
  shows "\<exists>out. sort_by_name cmp xs = Some out \<and> mset out = mset xs \<and>
               sorted_wrt (by_name cmp) out"
proof (cases "length xs \<le> 1")
  case True
  then have "sorted_wrt (by_name cmp) xs"
    by (cases xs) (auto simp: le_Suc_eq)
  with True show ?thesis by (simp add: sort_by_name_def)
next
  case False
  let ?c = "\<lambda>a b. cmp (name_of a) (name_of b)"
  have "sorted_wrt (by_name cmp) (sort_cmp ?c xs)"
  proof (rule sorted_sort_cmp)
    show "by_name cmp a b \<or> by_name cmp b a" for a b
      using assms(1) unfolding orders_def by_name_def by blast
    show "by_name cmp a b \<Longrightarrow> by_name cmp b c \<Longrightarrow> by_name cmp a c" for a b c
      using assms(1) unfolding orders_def by_name_def by blast
    show "by_name cmp a b \<longleftrightarrow> cmp (name_of a) (name_of b) \<le> 0" for a b
      by (simp add: by_name_def)
  qed
  with False assms(2) show ?thesis
    by (simp add: sort_by_name_def mset_sort_cmp)
qed

lemma countries_handler_ok:
  assumes ord: "orders cmp"
    and cfg: "(if config \<noteq> Absent then read_json readable config else Some getDefaultCountries)
                = Some (JObj kvs)"
    and cs: "map_of kvs ''countries'' = Some (JArr cs)"
    and wf: "list_all is_country cs"
  shows "\<exists>out. countries_handler cmp readable config =
                 \<lparr>statusCode = 200, resHeaders = countries_headers,
                  resBody = JObj [(''countries'', JArr out)]\<rparr> \<and>
               mset out = mset (map enabled_entry (filter is_enabled cs)) \<and>
               sorted_wrt (by_name cmp) out \<and>
               list_all (\<lambda>e. get_prop e ''enabled'' = JBool True) out"
proof -
  let ?m = "map enabled_entry (filter is_enabled cs)"
  have hn: "list_all has_name ?m"
    using wf has_name_enabled_entry by (auto simp: list_all_iff)
  from sort_by_name_sorted [OF ord hn] obtain out where
    out: "sort_by_name cmp ?m = Some out" "mset out = mset ?m" "sorted_wrt (by_name cmp) out"
    by blast
  have "set out = set ?m" using out(2) by (metis set_mset_mset)
  then have en: "list_all (\<lambda>e. get_prop e ''enabled'' = JBool True) out"
    by (auto simp: list_all_iff enabled_entry_def)
  have "countries_handler cmp readable config =
          \<lparr>statusCode = 200, resHeaders = countries_headers,
           resBody = JObj [(''countries'', JArr out)]\<rparr>"
    using cfg cs filter_enabled_objs [OF wf] out(1)
    by (simp add: countries_handler_def countries_headers_def)
  with out en show ?thesis by blast
qed

lemma compare_codes_total: "compare_codes a b \<le> 0 \<or> compare_codes b a \<le> 0"
  by (induction a b rule: compare_codes.induct) auto

lemma compare_codes_trans:
  "compare_codes a b \<le> 0 \<Longrightarrow> compare_codes b c \<le> 0 \<Longrightarrow> compare_codes a c \<le> 0"
proof (induction a b arbitrary: c rule: compare_codes.induct)
  case 1
  then show ?case by simp
next
  case (2 b bs)
  then show ?case by (cases c) (auto split: if_splits)
next
  case (3 a as)
  then show ?case by simp
next
  case (4 a as b bs)
  show ?case
  proof (cases c)
    case Nil
    with "4.prems" show ?thesis by simp
  next
    case (Cons x xs)
    have ab: "(of_char a :: nat) \<le> of_char b"
      using "4.prems"(1) by (auto split: if_splits)
    have bx: "(of_char b :: nat) \<le> of_char x"
      using "4.prems"(2) Cons by (auto split: if_splits)
    show ?thesis
    proof (cases "(of_char a :: nat) < of_char x")
      case True
      then show ?thesis using Cons by simp
    next
      case False
      with ab bx have eq: "(of_char a :: nat) = of_char b" "(of_char b :: nat) = of_char x"
        by linarith+
      have "compare_codes as bs \<le> 0"
        using "4.prems"(1) eq by simp
      moreover have "compare_codes bs xs \<le> 0"
        using "4.prems"(2) eq Cons by simp
      ultimately have "compare_codes as xs \<le> 0"
        using "4.IH" [of xs] eq by simp
      then show ?thesis using eq Cons by simp
    qed
  qed
qed

lemma orders_compare_codes: "orders compare_codes"
  unfolding orders_def using compare_codes_total compare_codes_trans by blast

subsection \<open>The handler\<close>

lemma parseBody_empty:
  "b = None \<or> b = Some [] \<Longrightarrow> parseBody b ct = Some (JObj [])"
  by (auto simp: parseBody_def)

lemma parseBody_fallback:
  "\<not> recognized ct \<Longrightarrow> JSON_parse b = None \<Longrightarrow> parseBody (Some b) ct = Some (JObj [])"
  by (auto simp: parseBody_def recognized_def split: option.splits)

lemma handler_empty_object:
  assumes "httpMethod ev = ''POST''"
    and "parseBody (body ev) (map_of (headers ev) ''content-type'') = Some (JObj [])"
  shows "handler clk d ev = (error_response 400 ''Invalid email address'', d)"
  using assms by (simp add: handler_def email_of_body_def)

lemma handler_accepted:
  assumes "httpMethod ev = ''POST''" and "request_subscriber clk ev = Some sub"
  shows "handler clk d ev =
           (if fst (saveSubscriber clk d sub) then success_response sub
            else error_response 500 ''Failed to save subscription'',
            snd (saveSubscriber clk d sub))"
proof -
  from assms(2) obtain b em cs where
    b: "parseBody (body ev) (map_of (headers ev) ''content-type'') = Some b" and
    e: "email_of_body b = Some (Some em)" and
    cs: "countries_of_raw (get_prop b ''countries'') = Some cs" and
    ok: "em \<noteq> []" "isValidEmail (JStr em)" "truthy cs" "get_prop cs ''length'' \<noteq> JNum 0" and
    sub: "sub = \<lparr>email = em, countries = cs,
                created_at = (if truthy (get_prop b ''created_at'') then get_prop b ''created_at''
                              else JStr (now_created clk)),
                active = True\<rparr>"
    by (auto simp: request_subscriber_def split: Option.bind_splits if_splits)
  show ?thesis
    using assms(1) b e cs ok
    by (simp add: handler_def sub [symmetric] Let_def split_beta)
qed

lemma saveSubscriber_corrupt:
  assumes "subscribers_file d = Text rawData" and "JSON_parse rawData = None"
  shows "saveSubscriber clk d sub = (False, d)"
  using assms by (simp add: saveSubscriber_def load_document_def read_json_def)

lemma handler_disk:
  "snd (handler clk d ev) = d \<or> (\<exists>sub. snd (handler clk d ev) = snd (saveSubscriber clk d sub))"
  by (auto simp: handler_def Let_def split_beta split: option.splits Option.bind_splits if_splits)

subsection \<open>The two outcomes of a successful save\<close>

lemma findIndex_none_no_match:
  assumes "findIndex_email subs e = Some None"
  shows "\<forall>s\<in>set subs. \<not> matches e s"
  using findIndex_none [OF assms] by (auto simp: matches_iff)

lemma findIndex_found_matches:
  assumes "findIndex_email subs e = Some (Some i)"
  shows "i < length subs \<and> matches e (subs ! i) \<and> (\<forall>j<i. \<not> matches e (subs ! j)) \<and>
         (\<exists>kvs. subs ! i = JObj kvs)"
  using findIndex_found [OF assms] by (auto simp: matches_iff)

lemma no_match_fresh:
  assumes "\<forall>s\<in>set subs. \<not> matches e s"
  shows "toLowerCase e \<notin> set (lc_emails subs)"
proof
  assume "toLowerCase e \<in> set (lc_emails subs)"
  then obtain s where s: "s \<in> set subs" "toLowerCase e \<in> set (lc_email s)"
    by (auto simp: lc_emails_def)
  then have "lc_email s = [toLowerCase e]"
    by (cases "get_prop s ''email''") (auto simp: lc_email_def)
  with s(1) assms show False by (simp add: matches_def)
qed

lemma successful_save:
  assumes "load_document d = Some data" and "saveSubscriber clk d sub = (True, d')"
  shows "\<exists>data'.
           subscribers_file d' = Saved data' \<and>
           get_prop data' ''last_updated'' = JStr (now_last_updated clk) \<and>
           (((\<forall>s\<in>set (subscribers_of data). \<not> matches (email sub) s) \<and>
             subscribers_of data' = subscribers_of data @ [subscriber_obj sub]) \<or>
            (\<exists>i kvs r.
               i < length (subscribers_of data) \<and>
               matches (email sub) (subscribers_of data ! i) \<and>
               (\<forall>j<i. \<not> matches (email sub) (subscribers_of data ! j)) \<and>
               subscribers_of data ! i = JObj kvs \<and>
               merge_existing clk (JObj kvs) sub = Some r \<and>
               subscribers_of data' = (subscribers_of data)[i := r]))"
proof -
  from saveSubscriber_success [OF assms(2)] assms(1) obtain kvs subs subs' where
    data: "data = JObj kvs" and
    subs: "map_of kvs ''subscribers'' = Some (JArr subs)" and
    up: "update_subscribers clk subs sub = Some subs'" and
    d': "d' = d\<lparr>data_dir := True,
                  subscribers_file :=
                    Saved (JObj (AList.update ''last_updated'' (JStr (now_last_updated clk))
                             (AList.update ''subscribers'' (JArr subs') kvs)))\<rparr>"
    by auto
  let ?data' = "JObj (AList.update ''last_updated'' (JStr (now_last_updated clk))
                             (AList.update ''subscribers'' (JArr subs') kvs))"
  have before: "subscribers_of data = subs"
    using data subs by (simp add: subscribers_of_def)
  have after: "subscribers_of ?data' = subs'"
    by (simp add: subscribers_of_def update_conv')
  have lu: "get_prop ?data' ''last_updated'' = JStr (now_last_updated clk)"
    by (simp add: update_conv')
  have fl: "subscribers_file d' = Saved ?data'"
    by (simp add: d')
  from update_subscribers_cases [OF up]
  have "((\<forall>s\<in>set subs. \<not> matches (email sub) s) \<and> subs' = subs @ [subscriber_obj sub]) \<or>
        (\<exists>i kvs r. i < length subs \<and> matches (email sub) (subs ! i) \<and>
               (\<forall>j<i. \<not> matches (email sub) (subs ! j)) \<and> subs ! i = JObj kvs \<and>
               merge_existing clk (JObj kvs) sub = Some r \<and> subs' = subs[i := r])"
  proof
    assume "findIndex_email subs (email sub) = Some None \<and> subs' = subs @ [subscriber_obj sub]"
    then show ?thesis using findIndex_none_no_match by blast
  next
    assume "\<exists>i m. findIndex_email subs (email sub) = Some (Some i) \<and>
                 merge_existing clk (subs ! i) sub = Some m \<and> subs' = subs[i := m]"
    then obtain i m where i: "findIndex_email subs (email sub) = Some (Some i)"
      and m: "merge_existing clk (subs ! i) sub = Some m" and s': "subs' = subs[i := m]"
      by blast
    from findIndex_found_matches [OF i] obtain kvs' where
      "i < length subs" "matches (email sub) (subs ! i)"
      "\<forall>j<i. \<not> matches (email sub) (subs ! j)" "subs ! i = JObj kvs'"
      by blast
    with m s' show ?thesis by auto
  qed
  with fl lu before after show ?thesis
    by (intro exI [of _ ?data']) simp
qed

lemma successful_save_cases [consumes 2, case_names insert merge]:
  assumes "load_document d = Some data" and "saveSubscriber clk d sub = (True, d')"
  obtains
    (insert) data' where
      "subscribers_file d' = Saved data'"
      "get_prop data' ''last_updated'' = JStr (now_last_updated clk)"
      "\<forall>s\<in>set (subscribers_of data). \<not> matches (email sub) s"
      "subscribers_of data' = subscribers_of data @ [subscriber_obj sub]"
  | (merge) data' i kvs r where
      "subscribers_file d' = Saved data'"
      "get_prop data' ''last_updated'' = JStr (now_last_updated clk)"
      "i < length (subscribers_of data)"
      "matches (email sub) (subscribers_of data ! i)"
      "\<forall>j<i. \<not> matches (email sub) (subscribers_of data ! j)"
      "subscribers_of data ! i = JObj kvs"
      "merge_existing clk (JObj kvs) sub = Some r"
      "subscribers_of data' = (subscribers_of data)[i := r]"
  using successful_save [OF assms] by blast

lemma get_prop_array_obj:
  assumes "get_prop data k = JArr xs" and "k \<noteq> ''length''"
  obtains kvs where "data = JObj kvs" "map_of kvs k = Some (JArr xs)"
  using assms by (cases data) (auto split: option.splits if_splits)

lemma matches_in_lc_emails:
  "s \<in> set subs \<Longrightarrow> matches e s \<Longrightarrow> toLowerCase e \<in> set (lc_emails subs)"
  by (auto simp: lc_emails_def matches_def intro!: bexI [of _ s])

lemma only_match:
  assumes d: "distinct (lc_emails subs)" and i: "i < length subs"
    and m: "matches e (subs ! i)"
  shows "filter (matches e) subs = [subs ! i]"
proof -
  let ?pre = "take i subs" and ?post = "drop (Suc i) subs"
  have split: "subs = ?pre @ subs ! i # ?post"
    using i by (rule id_take_nth_drop)
  have lc: "lc_emails subs = lc_emails ?pre @ [toLowerCase e] @ lc_emails ?post"
  proof -
    have "lc_emails subs = lc_emails (?pre @ subs ! i # ?post)"
      using split by simp
    also have "\<dots> = lc_emails ?pre @ lc_email (subs ! i) @ lc_emails ?post"
      by (simp add: lc_emails_def)
    finally show ?thesis using m by (simp add: matches_def)
  qed
  from d have fresh: "toLowerCase e \<notin> set (lc_emails ?pre)" "toLowerCase e \<notin> set (lc_emails ?post)"
    unfolding lc by auto
  have "\<forall>s\<in>set ?pre. \<not> matches e s"
    using fresh(1) matches_in_lc_emails by blast
  moreover have "\<forall>s\<in>set ?post. \<not> matches e s"
    using fresh(2) matches_in_lc_emails by blast
  ultimately have "filter (matches e) (?pre @ subs ! i # ?post) = [subs ! i]"
    using m by simp
  with split show ?thesis by simp
qed

subsection \<open>Requests without a valid email\<close>

lemma handler_invalid_email:
  assumes "httpMethod ev = ''POST''"
    and "parseBody (body ev) (map_of (headers ev) ''content-type'') = Some b"
    and "b \<noteq> JNull" "b \<noteq> JUndefined"
    and "get_prop b ''email'' = JUndefined \<or> get_prop b ''email'' = JNull \<or>
         (\<exists>raw. get_prop b ''email'' = JStr raw \<and>
                \<not> isValidEmail (JStr (toLowerCase (trim raw))))"
  shows "handler clk d ev = (error_response 400 ''Invalid email address'', d)"
proof -
  have g: "get b ''email'' = Some (get_prop b ''email'')"
    using assms(3,4) by (cases b) auto
  from assms(5) show ?thesis
  proof (elim disjE exE conjE)
    assume "get_prop b ''email'' = JUndefined"
    with g have "email_of_body b = Some None"
      by (simp add: email_of_body_def)
    with assms(1,2) show ?thesis by (simp add: handler_def)
  next
    assume "get_prop b ''email'' = JNull"
    with g have "email_of_body b = Some None"
      by (simp add: email_of_body_def)
    with assms(1,2) show ?thesis by (simp add: handler_def)
  next
    fix raw
    assume r: "get_prop b ''email'' = JStr raw"
      and inv: "\<not> isValidEmail (JStr (toLowerCase (trim raw)))"
    from r g have "email_of_body b = Some (Some (toLowerCase (trim raw)))"
      by (simp add: email_of_body_def)
    with assms(1,2) inv show ?thesis by (simp add: handler_def)
  qed
qed

lemma handler_non_string_email:
  assumes "httpMethod ev = ''POST''"
    and "parseBody (body ev) (map_of (headers ev) ''content-type'') = Some b"
    and "get b ''email'' = Some v"
    and "v \<noteq> JUndefined" "v \<noteq> JNull" "\<not> is_str v"
  shows "handler clk d ev = (error_response 500 ''Internal server error'', d)"
proof -
  from assms(3-6) have "email_of_body b = None"
    by (cases v) (simp_all add: email_of_body_def)
  with assms(1,2) show ?thesis by (simp add: handler_def)
qed

lemma handler_null_body:
  assumes "httpMethod ev = ''POST''"
    and "parseBody (body ev) (map_of (headers ev) ''content-type'') = Some JNull"
  shows "handler clk d ev = (error_response 500 ''Internal server error'', d)"
  using assms by (simp add: handler_def email_of_body_def)

lemma isValidEmail_pattern: "isValidEmail v \<longleftrightarrow> (\<exists>s. v = JStr s \<and> email_shape s)"
  using isValidEmail_shape by (cases v) auto

text \<open>
  Validation runs on the email once trimmed and put in lower case: a \<^verbatim>\<open>POST\<close> request whose
  \<^verbatim>\<open>email\<close> is a string is answered 400 \<^verbatim>\<open>Invalid email address\<close> exactly when that text is
  rejected.
\<close>

lemma handler_validates_normalized_email:
  assumes "httpMethod ev = ''POST''"
    and "parseBody (body ev) (map_of (headers ev) ''content-type'') = Some b"
    and "get b ''email'' = Some (JStr raw)"
  shows "handler clk d ev = (error_response 400 ''Invalid email address'', d) \<longleftrightarrow>
         \<not> isValidEmail (JStr (toLowerCase (trim raw)))"
proof
  assume "\<not> isValidEmail (JStr (toLowerCase (trim raw)))"
  with assms show "handler clk d ev = (error_response 400 ''Invalid email address'', d)"
    by (simp add: handler_def email_of_body_def)
next
  assume h: "handler clk d ev = (error_response 400 ''Invalid email address'', d)"
  show "\<not> isValidEmail (JStr (toLowerCase (trim raw)))"
  proof
    assume v: "isValidEmail (JStr (toLowerCase (trim raw)))"
    then have ne: "toLowerCase (trim raw) \<noteq> []" by auto
    from assms(3) have em: "email_of_body b = Some (Some (toLowerCase (trim raw)))"
      by (simp add: email_of_body_def)
    have "fst (handler clk d ev) \<noteq> error_response 400 ''Invalid email address''"
    proof (cases "countries_of_raw (get_prop b ''countries'')")
      case None
      with assms(1,2) em v ne show ?thesis
        by (simp add: handler_def error_response_def)
    next
      case (Some cs)
      with assms(1,2) em v ne show ?thesis
        by (simp add: handler_def error_response_def success_response_def Let_def split_beta)
    qed
    with h show False by simp
  qed
qed

lemma normalized_email_example:
  \<open>handler example_clock empty_disk
     (json_post ''{"email":"  A.B@Example.COM ","countries":["NO"]}'') =
   (success_response (example_subscriber ''a.b@example.com'' [''NO'']),
    snd (saveSubscriber example_clock empty_disk (example_subscriber ''a.b@example.com'' [''NO''])))\<close>
  by code_simp

subsection \<open>The built-in list of countries\<close>

lemma default_countries_entries:
  "get_prop getDefaultCountries ''countries'' = JArr (entries_of getDefaultCountries)"
  "list_all is_country (entries_of getDefaultCountries)"
  "filter is_enabled (entries_of getDefaultCountries) = entries_of getDefaultCountries"
  "map enabled_entry (entries_of getDefaultCountries) = entries_of getDefaultCountries"
  "map name_of (entries_of getDefaultCountries) = default_names"
  "length (entries_of getDefaultCountries) = 18"
  by code_simp+

subsection \<open>The comma-separated form of the countries\<close>

lemma upper_char_idem: "upper_char (upper_char c) = upper_char c"
  by (auto simp: upper_char_def is_lower_def)

lemma is_space_upper_char: "is_space (upper_char c) \<longleftrightarrow> is_space c"
  by (auto simp: upper_char_def is_lower_def is_space_def)

lemma toUpperCase_idem: "toUpperCase (toUpperCase s) = toUpperCase s"
  by (simp add: toUpperCase_def upper_char_idem)

lemma trimmed_toUpperCase: "trimmed s \<Longrightarrow> trimmed (toUpperCase s)"
  by (cases s) (auto simp: trimmed_def toUpperCase_def is_space_upper_char last_map hd_map)

lemma rev_dropWhile_rev_prefix:
  "\<exists>zs. xs = rev (dropWhile P (rev xs)) @ zs"
proof -
  have "rev xs = takeWhile P (rev xs) @ dropWhile P (rev xs)" by simp
  then have "rev (rev xs) = rev (takeWhile P (rev xs) @ dropWhile P (rev xs))"
    by (rule arg_cong)
  then have "xs = rev (dropWhile P (rev xs)) @ rev (takeWhile P (rev xs))"
    by (simp only: rev_rev_ident rev_append)
  then show ?thesis ..
qed

lemma trimmed_trim: "trimmed (trim s)"
proof (cases "trim s = []")
  case True
  then show ?thesis by (simp add: trimmed_def)
next
  case False
  let ?t = "dropWhile is_space s"
  let ?u = "dropWhile is_space (rev ?t)"
  have u: "?u \<noteq> []" using False by (simp add: trim_def)
  then have "\<not> is_space (hd ?u)" by (rule hd_dropWhile)
  then have l: "\<not> is_space (last (trim s))"
    using u by (simp add: trim_def last_rev)
  obtain zs where zs: "?t = rev ?u @ zs"
    using rev_dropWhile_rev_prefix [of ?t is_space] by blast
  have tne: "?t \<noteq> []"
  proof
    assume "?t = []"
    then have "?u = []" by (simp only: rev.simps(1) dropWhile.simps(1))
    with u show False by blast
  qed
  then have "\<not> is_space (hd ?t)" by (rule hd_dropWhile)
  moreover have "hd ?t = hd (rev ?u)"
    using zs u by (metis hd_append2 rev_is_Nil_conv)
  ultimately have "\<not> is_space (hd (trim s))"
    by (simp add: trim_def)
  with l show ?thesis by (simp add: trimmed_def)
qed

text \<open>
  What lines 32 to 34 do: a \<^verbatim>\<open>countries\<close> string that is not JSON is cut at the commas, and
  every entry that remains is not empty, trimmed and in upper case. A request that passes
  the email check and whose countries come out empty is answered 400.
\<close>

lemma comma_countries_normalized:
  assumes "JSON_parse s = None"
  shows "\<exists>cs. countries_of_raw (JStr s) = Some (JArr (map JStr cs)) \<and>
              list_all (\<lambda>c. c \<noteq> [] \<and> trimmed c \<and> toUpperCase c = c) cs"
proof -
  let ?cs = "filter (\<lambda>c. c \<noteq> []) (map (\<lambda>c. toUpperCase (trim c)) (split_on (CHR '','') s))"
  have "countries_of_raw (JStr s) = Some (JArr (map JStr ?cs))"
    using assms by (simp add: countries_of_raw_def)
  moreover have "list_all (\<lambda>c. c \<noteq> [] \<and> trimmed c \<and> toUpperCase c = c) ?cs"
    by (auto simp: list_all_iff trimmed_toUpperCase trimmed_trim toUpperCase_idem)
  ultimately show ?thesis by blast
qed

lemma no_countries_rejected:
  assumes "httpMethod ev = ''POST''"
    and "parseBody (body ev) (map_of (headers ev) ''content-type'') = Some b"
    and "email_of_body b = Some (Some em)" "em \<noteq> []" "isValidEmail (JStr em)"
    and "countries_of_raw (get_prop b ''countries'') = Some (JArr [])"
  shows "handler clk d ev =
           (error_response 400 ''At least one country must be selected'', d)"
  using assms by (simp add: handler_def)

lemma comma_countries_example:
  "countries_of_raw (JStr ''no,se'') = Some (JArr [JStr ''NO'', JStr ''SE''])"
  by code_simp

section \<open>Properties\<close>

subsection \<open>Merge on a matching email\<close>

text \<open>
  Claim C1. \<open>saveSubscriber\<close> merges instead of appending. For a document of well-formed
  records and a subscriber with a list of country codes, on a disk that can be written:
  \<^item> when a record matches the email up to case, the save succeeds and replaces the first
    such record in place; the lowercase emails of the document are what they were (no record
    is added), the countries of the record are the union of the old and the new ones without
    repetition, and \<^verbatim>\<open>active\<close> is \<^verbatim>\<open>true\<close>; when the lowercase emails of the document are
    all different, the record is the only one for the email;
  \<^item> when no record matches, saving the email with countries \<open>xs\<close> and then an email equal
    up to case with countries \<open>ys\<close> succeeds twice and leaves exactly one record for the
    email, at the end of the sequence, with \<^verbatim>\<open>active\<close> \<^verbatim>\<open>true\<close> and the union of \<open>xs\<close> and
    \<open>ys\<close> without repetition as its countries: for \<open>{A, B}\<close> and then \<open>{B, C}\<close>, the set
    \<open>{A, B, C}\<close>.
\<close>

theorem save_merges_same_email:
  assumes "load_document d = Some data"
    and "get_prop data ''subscribers'' = JArr subs"
    and "list_all wf_record subs"
    and "countries sub = JArr (map JStr xs)"
    and "data_dir d \<or> can_mkdir d" and "can_write d"
  shows "((\<exists>s\<in>set subs. matches (email sub) s) \<longrightarrow>
          (\<exists>i data' r.
             i < length subs \<and> matches (email sub) (subs ! i) \<and>
             saveSubscriber clk d sub =
               (True, d\<lparr>data_dir := True, subscribers_file := Saved data'\<rparr>) \<and>
             subscribers_of data' = subs[i := r] \<and>
             lc_emails (subscribers_of data') = lc_emails subs \<and>
             wf_record r \<and> matches (email sub) r \<and>
             distinct (countries_list r) \<and>
             set (countries_list r) = set (countries_list (subs ! i)) \<union> set xs \<and>
             get_prop r ''active'' = JBool True \<and>
             (distinct (lc_emails subs) \<longrightarrow>
                filter (matches (email sub)) (subscribers_of data') = [r]))) \<and>
         ((\<forall>s\<in>set subs. \<not> matches (email sub) s) \<and> can_read d \<and>
          toLowerCase (email sub') = toLowerCase (email sub) \<and>
          countries sub' = JArr (map JStr ys) \<longrightarrow>
          (\<exists>d1 d2 data2 r.
             saveSubscriber clk d sub = (True, d1) \<and>
             saveSubscriber clk' d1 sub' = (True, d2) \<and>
             subscribers_file d2 = Saved data2 \<and>
             subscribers_of data2 = subs @ [r] \<and>
             filter (matches (email sub)) (subscribers_of data2) = [r] \<and>
             distinct (countries_list r) \<and>
             set (countries_list r) = set xs \<union> set ys \<and>
             get_prop r ''active'' = JBool True))"
    (is "(?match \<longrightarrow> ?merged) \<and> (?fresh \<longrightarrow> ?twice)")
proof -
  from assms(2) obtain kvs where data: "data = JObj kvs"
    and sv: "map_of kvs ''subscribers'' = Some (JArr subs)"
    by (rule get_prop_array_obj) simp
  have so: "subscribers_of data = subs"
    using assms(2) by (simp add: subscribers_of_def)
  have A: ?merged if ex: ?match
  proof -
    from merge_on_match [OF assms(1), of sub xs clk] assms(3-) ex
    obtain i data' r where
      lt: "i < length subs" and mi: "matches (email sub) (subs ! i)" and
      sv': "saveSubscriber clk d sub =
             (True, d\<lparr>data_dir := True, subscribers_file := Saved data'\<rparr>)" and
      so': "subscribers_of data' = subs[i := r]" and
      lc: "lc_emails (subscribers_of data') = lc_emails subs" and
      r: "wf_record r" "matches (email sub) r" "distinct (countries_list r)"
         "set (countries_list r) = set (countries_list (subs ! i)) \<union> set xs"
         "get_prop r ''active'' = JBool True"
      unfolding so by blast
    have "filter (matches (email sub)) (subscribers_of data') = [r]"
      if "distinct (lc_emails subs)"
    proof -
      have "filter (matches (email sub)) (subs[i := r]) = [subs[i := r] ! i]"
      proof (rule only_match)
        show "distinct (lc_emails (subs[i := r]))"
          using that lc so' by simp
        show "i < length (subs[i := r])"
          using lt by simp
        show "matches (email sub) (subs[i := r] ! i)"
          using lt r(2) by simp
      qed
      with lt so' show ?thesis by simp
    qed
    with lt mi sv' so' lc r show ?thesis by blast
  qed
  have B: ?twice if pre: ?fresh
  proof -
    from pre have nm: "\<forall>s\<in>set subs. \<not> matches (email sub) s" and rd: "can_read d"
      and same: "toLowerCase (email sub') = toLowerCase (email sub)"
      and c2: "countries sub' = JArr (map JStr ys)"
      by blast+
    have fresh: "toLowerCase (email sub) \<notin> set (lc_emails subs)"
      using nm by (rule no_match_fresh)
    from subscribe_twice [OF assms(1) [unfolded data] sv assms(3) fresh same assms(4) c2
        assms(5,6) rd, of clk clk']
    show ?thesis .
  qed
  from A B show ?thesis by blast
qed

theorem save_merges_same_email_witness:
  "(\<exists>i data' r.
      i < length [example_record] \<and>
      matches (email (example_subscriber ''A@Example.com'' [''SE'', ''DK''])) ([example_record] ! i) \<and>
      saveSubscriber example_clock example_disk
        (example_subscriber ''A@Example.com'' [''SE'', ''DK'']) =
        (True, example_disk\<lparr>data_dir := True, subscribers_file := Saved data'\<rparr>) \<and>
      subscribers_of data' = [example_record][i := r] \<and>
      lc_emails (subscribers_of data') = lc_emails [example_record] \<and>
      wf_record r \<and>
      matches (email (example_subscriber ''A@Example.com'' [''SE'', ''DK''])) r \<and>
      distinct (countries_list r) \<and>
      set (countries_list r) =
        set (countries_list ([example_record] ! i)) \<union> set [''SE'', ''DK''] \<and>
      get_prop r ''active'' = JBool True \<and>
      filter (matches (email (example_subscriber ''A@Example.com'' [''SE'', ''DK''])))
        (subscribers_of data') = [r]) \<and>
   (\<exists>d1 d2 data2 r.
      saveSubscriber example_clock empty_disk
        (example_subscriber ''a@example.com'' [''NO'', ''SE'']) = (True, d1) \<and>
      saveSubscriber example_clock d1
        (example_subscriber ''A@EXAMPLE.COM'' [''SE'', ''DK'']) = (True, d2) \<and>
      subscribers_file d2 = Saved data2 \<and>
      subscribers_of data2 = [] @ [r] \<and>
      filter (matches (email (example_subscriber ''a@example.com'' [''NO'', ''SE''])))
        (subscribers_of data2) = [r] \<and>
      distinct (countries_list r) \<and>
      set (countries_list r) = set [''NO'', ''SE''] \<union> set [''SE'', ''DK''] \<and>
      get_prop r ''active'' = JBool True)"
proof -
  let ?m = "example_subscriber ''A@Example.com'' [''SE'', ''DK'']"
  let ?s1 = "example_subscriber ''a@example.com'' [''NO'', ''SE'']"
  let ?s2 = "example_subscriber ''A@EXAMPLE.COM'' [''SE'', ''DK'']"
  have l1: "load_document example_disk = Some example_document"
    by code_simp
  have g1: "get_prop example_document ''subscribers'' = JArr [example_record]"
    by code_simp
  have w1: "list_all wf_record [example_record]"
    by code_simp
  have c1: "countries ?m = JArr (map JStr [''SE'', ''DK''])"
    by (simp add: example_subscriber_def)
  have io1: "data_dir example_disk \<or> can_mkdir example_disk" "can_write example_disk"
    by (simp_all add: example_disk_def empty_disk_def)
  have u1: "distinct (lc_emails [example_record])"
    by code_simp
  have "list_ex (matches (email ?m)) [example_record]"
    by code_simp
  then have ex1: "\<exists>s\<in>set [example_record]. matches (email ?m) s"
    by (simp only: list_ex_iff)
  have l2: "load_document empty_disk = Some default_document"
    by code_simp
  have g2: "get_prop default_document ''subscribers'' = JArr []"
    by code_simp
  have w2: "list_all wf_record []"
    by simp
  have c2: "countries ?s1 = JArr (map JStr [''NO'', ''SE''])"
    by (simp add: example_subscriber_def)
  have io2: "data_dir empty_disk \<or> can_mkdir empty_disk" "can_write empty_disk"
    by (simp_all add: empty_disk_def)
  have "toLowerCase (email ?s2) = toLowerCase (email ?s1)"
    by code_simp
  then have h2: "(\<forall>s\<in>set []. \<not> matches (email ?s1) s) \<and> can_read empty_disk \<and>
          toLowerCase (email ?s2) = toLowerCase (email ?s1) \<and>
          countries ?s2 = JArr (map JStr [''SE'', ''DK''])"
    by (simp add: empty_disk_def example_subscriber_def)
  from save_merges_same_email [OF l1 g1 w1 c1 io1, where clk = example_clock,
      THEN conjunct1, THEN mp, OF ex1]
  obtain i data' r where
    a: "i < length [example_record]" "matches (email ?m) ([example_record] ! i)"
       "saveSubscriber example_clock example_disk ?m =
          (True, example_disk\<lparr>data_dir := True, subscribers_file := Saved data'\<rparr>)"
       "subscribers_of data' = [example_record][i := r]"
       "lc_emails (subscribers_of data') = lc_emails [example_record]"
       "wf_record r" "matches (email ?m) r" "distinct (countries_list r)"
       "set (countries_list r) =
          set (countries_list ([example_record] ! i)) \<union> set [''SE'', ''DK'']"
       "get_prop r ''active'' = JBool True" and
    f: "distinct (lc_emails [example_record]) \<longrightarrow>
          filter (matches (email ?m)) (subscribers_of data') = [r]"
    by blast
  from f u1 have f': "filter (matches (email ?m)) (subscribers_of data') = [r]"
    by (rule mp)
  from save_merges_same_email [OF l2 g2 w2 c2 io2, where sub' = ?s2 and ys = "[''SE'', ''DK'']"
      and clk = example_clock and clk' = example_clock, THEN conjunct2, THEN mp, OF h2]
  obtain d1 d2 data2 q where
    b: "saveSubscriber example_clock empty_disk ?s1 = (True, d1)"
       "saveSubscriber example_clock d1 ?s2 = (True, d2)"
       "subscribers_file d2 = Saved data2"
       "subscribers_of data2 = [] @ [q]"
       "filter (matches (email ?s1)) (subscribers_of data2) = [q]"
       "distinct (countries_list q)"
       "set (countries_list q) = set [''NO'', ''SE''] \<union> set [''SE'', ''DK'']"
       "get_prop q ''active'' = JBool True"
    by blast
  show ?thesis
  proof (rule conjI)
    show "\<exists>i data' r.
      i < length [example_record] \<and>
      matches (email ?m) ([example_record] ! i) \<and>
      saveSubscriber example_clock example_disk ?m =
        (True, example_disk\<lparr>data_dir := True, subscribers_file := Saved data'\<rparr>) \<and>
      subscribers_of data' = [example_record][i := r] \<and>
      lc_emails (subscribers_of data') = lc_emails [example_record] \<and>
      wf_record r \<and>
      matches (email ?m) r \<and>
      distinct (countries_list r) \<and>
      set (countries_list r) =
        set (countries_list ([example_record] ! i)) \<union> set [''SE'', ''DK''] \<and>
      get_prop r ''active'' = JBool True \<and>
      filter (matches (email ?m)) (subscribers_of data') = [r]"
      using a f' by (intro exI [of _ i] exI [of _ data'] exI [of _ r] conjI)
    show "\<exists>d1 d2 data2 r.
      saveSubscriber example_clock empty_disk ?s1 = (True, d1) \<and>
      saveSubscriber example_clock d1 ?s2 = (True, d2) \<and>
      subscribers_file d2 = Saved data2 \<and>
      subscribers_of data2 = [] @ [r] \<and>
      filter (matches (email ?s1)) (subscribers_of data2) = [r] \<and>
      distinct (countries_list r) \<and>
      set (countries_list r) = set [''NO'', ''SE''] \<union> set [''SE'', ''DK''] \<and>
      get_prop r ''active'' = JBool True"
      using b by (intro exI [of _ d1] exI [of _ d2] exI [of _ data2] exI [of _ q] conjI)
  qed
qed

subsection \<open>At most one record for an email\<close>

text \<open>
  Claim C2. Uniqueness of lowercase emails is an invariant of a successful save: when no
  two records of the document have the same lowercase email and \<open>saveSubscriber\<close> returns
  \<^verbatim>\<open>true\<close>, no two records of the document it wrote have the same lowercase email. This
  holds for every input subscriber, normalized or not.
\<close>

theorem save_keeps_emails_unique:
  assumes "load_document d = Some data"
    and "distinct (lc_emails (subscribers_of data))"
    and "saveSubscriber clk d sub = (True, d')"
  shows "\<exists>data'. subscribers_file d' = Saved data' \<and>
                 distinct (lc_emails (subscribers_of data'))"
  using assms(1,3)
proof (cases rule: successful_save_cases)
  case (insert data')
  from insert(3) have "toLowerCase (email sub) \<notin> set (lc_emails (subscribers_of data))"
    by (rule no_match_fresh)
  with insert(4) assms(2) have "distinct (lc_emails (subscribers_of data'))"
    by (simp add: lc_emails_def lc_email_subscriber_obj)
  with insert(1) show ?thesis by blast
next
  case (merge data' i kvs r)
  have "get_prop r ''email'' = get_prop (subscribers_of data ! i) ''email''"
    using merge_existing_frame [OF merge(7), of "''email''"] merge(6) by simp
  then have "distinct (lc_emails (subscribers_of data'))"
    using lc_emails_update [OF merge(3)] merge(8) assms(2) by simp
  with merge(1) show ?thesis by blast
qed

theorem save_keeps_emails_unique_witness:
  "\<exists>data'. subscribers_file
              (snd (saveSubscriber example_clock example_disk
                      (example_subscriber ''A@Example.com'' [''SE'', ''DK'']))) = Saved data' \<and>
           distinct (lc_emails (subscribers_of data'))"
proof -
  let ?sub = "example_subscriber ''A@Example.com'' [''SE'', ''DK'']"
  have l: "load_document example_disk = Some example_document"
    by code_simp
  have u: "distinct (lc_emails (subscribers_of example_document))"
    by code_simp
  have "fst (saveSubscriber example_clock example_disk ?sub)"
    by code_simp
  then have s: "saveSubscriber example_clock example_disk ?sub =
          (True, snd (saveSubscriber example_clock example_disk ?sub))"
    by (simp add: prod_eq_iff)
  from save_keeps_emails_unique [OF l u s] show ?thesis .
qed

subsection \<open>Countries given as a string\<close>

text \<open>
  Claim C3. The claim fails on the code for a \<^verbatim>\<open>countries\<close> string that is a JSON-encoded
  array: line 31 takes the parsed value as it is, so the entries \<^verbatim>\<open>no\<close> and \<^verbatim>\<open>se\<close> reach the
  Subscriber, the response and the store in lower case. The request below is a form post
  whose \<^verbatim>\<open>countries\<close> field is the text \<^verbatim>\<open>["no","se"]\<close>.
\<close>

theorem json_encoded_countries_kept_as_parsed:
  \<open>countries_of_raw (JStr ''["no","se"]'') = Some (JArr [JStr ''no'', JStr ''se'']) \<and>
   toUpperCase ''no'' = ''NO'' \<and>
   handler example_clock empty_disk (form_post ''email=a@example.com&countries=["no","se"]'') =
     (success_response (example_subscriber ''a@example.com'' [''no'', ''se'']),
      empty_disk\<lparr>data_dir := True,
        subscribers_file := Saved (JObj
          [(''subscribers'',
            JArr [subscriber_obj (example_subscriber ''a@example.com'' [''no'', ''se''])]),
           (''last_updated'', JStr (now_last_updated example_clock)),
           (''version'', JStr ''1.0'')])\<rparr>)\<close>
proof (intro conjI)
  show \<open>countries_of_raw (JStr ''["no","se"]'') = Some (JArr [JStr ''no'', JStr ''se''])\<close>
    by code_simp
  show "toUpperCase ''no'' = ''NO''"
    by code_simp
  show \<open>handler example_clock empty_disk
          (form_post ''email=a@example.com&countries=["no","se"]'') =
     (success_response (example_subscriber ''a@example.com'' [''no'', ''se'']),
      empty_disk\<lparr>data_dir := True,
        subscribers_file := Saved (JObj
          [(''subscribers'',
            JArr [subscriber_obj (example_subscriber ''a@example.com'' [''no'', ''se''])]),
           (''last_updated'', JStr (now_last_updated example_clock)),
           (''version'', JStr ''1.0'')])\<rparr>)\<close>
    by code_simp
qed

theorem json_encoded_countries_kept_as_parsed_witness:
  \<open>get_prop (get_prop (resBody (fst (handler example_clock empty_disk
      (form_post ''email=a@example.com&countries=["no","se"]'')))) ''subscriber'') ''countries'' =
    JArr [JStr ''no'', JStr ''se'']\<close>
  using json_encoded_countries_kept_as_parsed
  by (simp add: success_response_def example_subscriber_def)

subsection \<open>Email validation\<close>

text \<open>
  Claim C4. The claim fails on the code for a \<^verbatim>\<open>POST\<close> request whose \<^verbatim>\<open>email\<close> is present and
  is not a string, and for one whose body is the JSON text \<^verbatim>\<open>null\<close>. \<open>isValidEmail\<close> rejects
  such an email (the \<^verbatim>\<open>typeof\<close> test of line 110), but line 17 calls \<^verbatim>\<open>trim\<close> on it before
  \<open>isValidEmail\<close> is reached: the \<^verbatim>\<open>TypeError\<close> is caught at line 77 and the answer is 500
  with the error \<^verbatim>\<open>Internal server error\<close>, not 400 with \<^verbatim>\<open>Invalid email address\<close>. The store
  is left as it was. On strings the claim holds: \<open>isValidEmail\<close> accepts exactly the pattern
  (\<open>isValidEmail_pattern\<close>, \<open>email_shape_at\<close>, \<open>email_shape_dot\<close>), and a missing, \<^verbatim>\<open>null\<close> or
  rejected string email is answered 400 (\<open>handler_invalid_email\<close>,
  \<open>handler_validates_normalized_email\<close>).
\<close>

theorem non_string_email_is_internal_error:
  assumes "httpMethod ev = ''POST''"
    and "parseBody (body ev) (map_of (headers ev) ''content-type'') = Some b"
    and "b = JNull \<or>
         (\<exists>v. get b ''email'' = Some v \<and> v \<noteq> JUndefined \<and> v \<noteq> JNull \<and> \<not> is_str v)"
  shows "\<not> isValidEmail (get_prop b ''email'') \<and>
         handler clk d ev =
           (\<lparr>statusCode = 500, resHeaders = [],
             resBody = JObj [(''error'', JStr ''Internal server error'')]\<rparr>, d)"
proof -
  from assms(3) show ?thesis
  proof (elim disjE exE conjE)
    assume n: "b = JNull"
    from assms(2) have "parseBody (body ev) (map_of (headers ev) ''content-type'') = Some JNull"
      by (simp only: n)
    from handler_null_body [OF assms(1) this] n show ?thesis
      by (simp add: error_response_def)
  next
    fix v
    assume g: "get b ''email'' = Some v" and v: "v \<noteq> JUndefined" "v \<noteq> JNull" "\<not> is_str v"
    from g have "get_prop b ''email'' = v"
      by (cases b) simp_all
    moreover from v(3) have "\<not> isValidEmail v"
      by (cases v) simp_all
    ultimately show ?thesis
      using handler_non_string_email [OF assms(1,2) g v, of clk d]
      by (simp add: error_response_def)
  qed
qed

theorem non_string_email_is_internal_error_witness:
  \<open>\<not> isValidEmail (JNum 5) \<and>
   handler example_clock example_disk (json_post ''{"email":5,"countries":["NO"]}'') =
     (\<lparr>statusCode = 500, resHeaders = [],
       resBody = JObj [(''error'', JStr ''Internal server error'')]\<rparr>, example_disk) \<and>
   handler example_clock example_disk (json_post ''null'') =
     (\<lparr>statusCode = 500, resHeaders = [],
       resBody = JObj [(''error'', JStr ''Internal server error'')]\<rparr>, example_disk)\<close>
proof -
  let ?e1 = \<open>json_post ''{"email":5,"countries":["NO"]}''\<close>
  let ?b1 = "JObj [(''email'', JNum 5), (''countries'', JArr [JStr ''NO''])]"
  let ?e2 = "json_post ''null''"
  have m: "httpMethod ?e1 = ''POST''" "httpMethod ?e2 = ''POST''"
    by (simp_all add: json_post_def)
  have p1: "parseBody (body ?e1) (map_of (headers ?e1) ''content-type'') = Some ?b1"
    by code_simp
  have p2: "parseBody (body ?e2) (map_of (headers ?e2) ''content-type'') = Some JNull"
    by code_simp
  have h1: "?b1 = JNull \<or>
      (\<exists>v. get ?b1 ''email'' = Some v \<and> v \<noteq> JUndefined \<and> v \<noteq> JNull \<and> \<not> is_str v)"
    by simp
  have h2: "JNull = JNull \<or>
      (\<exists>v. get JNull ''email'' = Some v \<and> v \<noteq> JUndefined \<and> v \<noteq> JNull \<and> \<not> is_str v)"
    by simp
  from non_string_email_is_internal_error [OF m(1) p1 h1, where clk = example_clock
      and d = example_disk]
    non_string_email_is_internal_error [OF m(2) p2 h2, where clk = example_clock
      and d = example_disk]
  show ?thesis by simp
qed

subsection \<open>The countries function\<close>

text \<open>
  Claim C5. For a comparison that orders the names, and a configuration whose entries are
  objects with string names, the countries function answers 200 with exactly the entries
  whose flag is not \<^verbatim>\<open>false\<close>, each as \<^verbatim>\<open>{code, name, enabled: true}\<close>, in ascending order of
  name under the comparison, whatever the order of the configuration. Without a
  configuration file the entries are those of the built-in list of 18 countries.
\<close>

theorem countries_enabled_and_sorted:
  assumes "orders localeCompare"
  shows "(config \<noteq> Absent \<and> read_json readable config = Some data \<and>
          get_prop data ''countries'' = JArr cs \<and> list_all is_country cs \<longrightarrow>
          (\<exists>out. countries_handler localeCompare readable config =
                   \<lparr>statusCode = 200, resHeaders = countries_headers,
                    resBody = JObj [(''countries'', JArr out)]\<rparr> \<and>
                 mset out = mset (map enabled_entry (filter is_enabled cs)) \<and>
                 sorted_wrt (by_name localeCompare) out \<and>
                 list_all (\<lambda>e. get_prop e ''enabled'' = JBool True) out)) \<and>
         (\<exists>out. countries_handler localeCompare readable Absent =
                  \<lparr>statusCode = 200, resHeaders = countries_headers,
                   resBody = JObj [(''countries'', JArr out)]\<rparr> \<and>
                length out = 18 \<and>
                mset (map name_of out) = mset default_names \<and>
                sorted_wrt (by_name localeCompare) out \<and>
                list_all (\<lambda>e. get_prop e ''enabled'' = JBool True) out)"
proof -
  have A: "\<exists>out. countries_handler localeCompare readable config =
                   \<lparr>statusCode = 200, resHeaders = countries_headers,
                    resBody = JObj [(''countries'', JArr out)]\<rparr> \<and>
                 mset out = mset (map enabled_entry (filter is_enabled cs)) \<and>
                 sorted_wrt (by_name localeCompare) out \<and>
                 list_all (\<lambda>e. get_prop e ''enabled'' = JBool True) out"
    if c: "config \<noteq> Absent" and r: "read_json readable config = Some data"
      and g: "get_prop data ''countries'' = JArr cs" and wf: "list_all is_country cs"
  proof -
    from g obtain kvs where data: "data = JObj kvs"
      and kv: "map_of kvs ''countries'' = Some (JArr cs)"
      by (rule get_prop_array_obj) simp
    have "(if config \<noteq> Absent then read_json readable config else Some getDefaultCountries)
            = Some (JObj kvs)"
      using c r data by simp
    from countries_handler_ok [OF assms this kv wf] show ?thesis .
  qed
  have B: "\<exists>out. countries_handler localeCompare readable Absent =
                  \<lparr>statusCode = 200, resHeaders = countries_headers,
                   resBody = JObj [(''countries'', JArr out)]\<rparr> \<and>
                length out = 18 \<and>
                mset (map name_of out) = mset default_names \<and>
                sorted_wrt (by_name localeCompare) out \<and>
                list_all (\<lambda>e. get_prop e ''enabled'' = JBool True) out"
  proof -
    let ?cs = "entries_of getDefaultCountries"
    note d = default_countries_entries
    from d(1) obtain kvs where gd: "getDefaultCountries = JObj kvs"
      and kv: "map_of kvs ''countries'' = Some (JArr ?cs)"
      by (rule get_prop_array_obj) simp
    have wf: "list_all is_country ?cs" by (rule d(2))
    have "(if Absent \<noteq> Absent then read_json readable Absent else Some getDefaultCountries)
            = Some (JObj kvs)"
      using gd by simp
    from countries_handler_ok [OF assms this kv wf] obtain out where
      h: "countries_handler localeCompare readable Absent =
                  \<lparr>statusCode = 200, resHeaders = countries_headers,
                   resBody = JObj [(''countries'', JArr out)]\<rparr>" and
      ms: "mset out = mset (map enabled_entry (filter is_enabled ?cs))" and
      so: "sorted_wrt (by_name localeCompare) out" and
      al: "list_all (\<lambda>e. get_prop e ''enabled'' = JBool True) out"
      by blast
    from ms have ms': "mset out = mset ?cs" by (simp only: d(3,4))
    then have "length out = 18"
      using d(6) by (metis size_mset)
    moreover from ms' have "mset (map name_of out) = mset default_names"
      using d(5) by (metis mset_map)
    ultimately show ?thesis using h so al by blast
  qed
  from A B show ?thesis by blast
qed

theorem countries_enabled_and_sorted_witness:
  "(\<exists>out. countries_handler compare_codes True example_config =
            \<lparr>statusCode = 200, resHeaders = countries_headers,
             resBody = JObj [(''countries'', JArr out)]\<rparr> \<and>
          mset out =
            mset (map enabled_entry (filter is_enabled
              [JObj [(''code'', JStr ''SE''), (''name'', JStr ''Sweden'')],
               JObj [(''code'', JStr ''XX''), (''name'', JStr ''Atlantis''),
                     (''enabled'', JBool False)],
               JObj [(''code'', JStr ''NO''), (''name'', JStr ''Norway''),
                     (''enabled'', JBool True)]])) \<and>
          sorted_wrt (by_name compare_codes) out \<and>
          list_all (\<lambda>e. get_prop e ''enabled'' = JBool True) out) \<and>
   (\<exists>out. countries_handler compare_codes True Absent =
            \<lparr>statusCode = 200, resHeaders = countries_headers,
             resBody = JObj [(''countries'', JArr out)]\<rparr> \<and>
          length out = 18 \<and>
          mset (map name_of out) = mset default_names \<and>
          sorted_wrt (by_name compare_codes) out \<and>
          list_all (\<lambda>e. get_prop e ''enabled'' = JBool True) out) \<and>
   countries_handler compare_codes True example_config =
     \<lparr>statusCode = 200, resHeaders = countries_headers,
      resBody = JObj [(''countries'', JArr
        [JObj [(''code'', JStr ''NO''), (''name'', JStr ''Norway''), (''enabled'', JBool True)],
         JObj [(''code'', JStr ''SE''), (''name'', JStr ''Sweden''), (''enabled'', JBool True)]])]\<rparr>"
proof -
  let ?cs = "[JObj [(''code'', JStr ''SE''), (''name'', JStr ''Sweden'')],
               JObj [(''code'', JStr ''XX''), (''name'', JStr ''Atlantis''),
                     (''enabled'', JBool False)],
               JObj [(''code'', JStr ''NO''), (''name'', JStr ''Norway''),
                     (''enabled'', JBool True)]]"
  have c: "example_config \<noteq> Absent"
    by (simp add: example_config_def)
  have r: "read_json True example_config = Some (JObj [(''countries'', JArr ?cs)])"
    by code_simp
  have g: "get_prop (JObj [(''countries'', JArr ?cs)]) ''countries'' = JArr ?cs"
    by simp
  have w: "list_all is_country ?cs"
    by code_simp
  have e: "countries_handler compare_codes True example_config =
     \<lparr>statusCode = 200, resHeaders = countries_headers,
      resBody = JObj [(''countries'', JArr
        [JObj [(''code'', JStr ''NO''), (''name'', JStr ''Norway''), (''enabled'', JBool True)],
         JObj [(''code'', JStr ''SE''), (''name'', JStr ''Sweden''), (''enabled'', JBool True)]])]\<rparr>"
    by code_simp
  from countries_enabled_and_sorted [OF orders_compare_codes, where config = example_config
      and readable = True and data = "JObj [(''countries'', JArr ?cs)]" and cs = ?cs] c r g w e
  show ?thesis by blast
qed

subsection \<open>A document that does not parse\<close>

text \<open>
  Claim C6. When the subscriber document exists and its text is not JSON,
  \<open>saveSubscriber\<close> returns \<^verbatim>\<open>false\<close> and leaves the disk as it was: the text of the file is
  not replaced by an empty document. No request changes the disk then, and a \<^verbatim>\<open>POST\<close>
  request that passes validation is answered 500 with
  \<^verbatim>\<open>{error: "Failed to save subscription"}\<close>.
\<close>

theorem corrupt_document_is_kept:
  assumes "subscribers_file d = Text rawData" and "JSON_parse rawData = None"
  shows "saveSubscriber clk d sub = (False, d) \<and>
         snd (handler clk d ev) = d \<and>
         (httpMethod ev = ''POST'' \<and> request_subscriber clk ev = Some sub' \<longrightarrow>
            handler clk d ev =
              (\<lparr>statusCode = 500, resHeaders = [],
                resBody = JObj [(''error'', JStr ''Failed to save subscription'')]\<rparr>, d))"
proof -
  have sv: "\<And>s. saveSubscriber clk d s = (False, d)"
    using assms by (rule saveSubscriber_corrupt)
  have "snd (handler clk d ev) = d"
    using handler_disk [of clk d ev] sv by auto
  moreover have "handler clk d ev =
              (\<lparr>statusCode = 500, resHeaders = [],
                resBody = JObj [(''error'', JStr ''Failed to save subscription'')]\<rparr>, d)"
    if "httpMethod ev = ''POST''" "request_subscriber clk ev = Some sub'"
    using handler_accepted [OF that, of d] sv by (simp add: error_response_def)
  ultimately show ?thesis using sv by blast
qed

theorem corrupt_document_is_kept_witness:
  \<open>saveSubscriber example_clock corrupt_disk (example_subscriber ''a@example.com'' [''NO'']) =
     (False, corrupt_disk) \<and>
   snd (handler example_clock corrupt_disk
          (json_post ''{"email":"a@example.com","countries":["NO"]}'')) = corrupt_disk \<and>
   handler example_clock corrupt_disk (json_post ''{"email":"a@example.com","countries":["NO"]}'') =
     (\<lparr>statusCode = 500, resHeaders = [],
       resBody = JObj [(''error'', JStr ''Failed to save subscription'')]\<rparr>, corrupt_disk) \<and>
   subscribers_file corrupt_disk = Text ''{ "subscribers": [ ''\<close>
proof -
  let ?ev = \<open>json_post ''{"email":"a@example.com","countries":["NO"]}''\<close>
  have f: \<open>subscribers_file corrupt_disk = Text ''{ "subscribers": [ ''\<close>
    by (simp add: corrupt_disk_def empty_disk_def)
  have p: \<open>JSON_parse ''{ "subscribers": [ '' = None\<close>
    by code_simp
  have m: "httpMethod ?ev = ''POST''"
    by (simp add: json_post_def)
  have r: "request_subscriber example_clock ?ev =
             Some (example_subscriber ''a@example.com'' [''NO''])"
    by code_simp
  from corrupt_document_is_kept [OF f p, of example_clock
      "example_subscriber ''a@example.com'' [''NO'']" ?ev
      "example_subscriber ''a@example.com'' [''NO'']"] m r f
  show ?thesis by simp
qed

subsection \<open>Methods other than POST\<close>

text \<open>
  Claim C7. A request whose method is not \<^verbatim>\<open>POST\<close> gets status 405 with the body
  \<^verbatim>\<open>{error: "Method not allowed"}\<close>; the store is left as it was, and the answer is the same
  whatever the headers and the body of the request are.
\<close>

theorem non_post_method_not_allowed:
  assumes "httpMethod ev \<noteq> ''POST''"
  shows "handler clk d ev =
           (\<lparr>statusCode = 405, resHeaders = [],
             resBody = JObj [(''error'', JStr ''Method not allowed'')]\<rparr>, d) \<and>
         handler clk d (ev\<lparr>headers := h, body := b\<rparr>) = handler clk d ev"
  using assms by (simp add: handler_def error_response_def)

theorem non_post_method_not_allowed_witness:
  \<open>handler example_clock example_disk
     \<lparr>httpMethod = ''GET'', headers = [], body = Some ''{"email":"a@example.com"}''\<rparr> =
     (\<lparr>statusCode = 405, resHeaders = [],
       resBody = JObj [(''error'', JStr ''Method not allowed'')]\<rparr>, example_disk) \<and>
   handler example_clock example_disk
     \<lparr>httpMethod = ''GET'', headers = [(''content-type'', ''application/json'')], body = None\<rparr> =
   handler example_clock example_disk
     \<lparr>httpMethod = ''GET'', headers = [], body = Some ''{"email":"a@example.com"}''\<rparr>\<close>
proof -
  have m: \<open>httpMethod \<lparr>httpMethod = ''GET'', headers = [],
             body = Some ''{"email":"a@example.com"}''\<rparr> \<noteq> ''POST''\<close>
    by simp
  from non_post_method_not_allowed [OF m, where clk = example_clock and d = example_disk
      and h = "[(''content-type'', ''application/json'')]" and b = None]
  show ?thesis by simp
qed

subsection \<open>What a merge and a save leave in place\<close>

text \<open>
  Claim C8. A successful save refreshes \<^verbatim>\<open>last_updated\<close> of the document, whether it inserts
  or merges. When a record matches the email of the new subscriber, the first such record
  is replaced in place by a record with the same \<^verbatim>\<open>email\<close> and the same \<^verbatim>\<open>created_at\<close>:
  every other position of the sequence holds what it held.
\<close>

theorem merge_keeps_created_at_and_position:
  assumes "load_document d = Some data"
    and "saveSubscriber clk d sub = (True, d')"
  shows "\<exists>data'.
           subscribers_file d' = Saved data' \<and>
           get_prop data' ''last_updated'' = JStr (now_last_updated clk) \<and>
           ((\<exists>s\<in>set (subscribers_of data). matches (email sub) s) \<longrightarrow>
            (\<exists>i r. i < length (subscribers_of data) \<and>
                   matches (email sub) (subscribers_of data ! i) \<and>
                   subscribers_of data' = (subscribers_of data)[i := r] \<and>
                   get_prop r ''created_at'' = get_prop (subscribers_of data ! i) ''created_at'' \<and>
                   get_prop r ''email'' = get_prop (subscribers_of data ! i) ''email''))"
  using assms
proof (cases rule: successful_save_cases)
  case (insert data')
  then show ?thesis by blast
next
  case (merge data' i kvs r)
  have "get_prop r ''created_at'' = get_prop (subscribers_of data ! i) ''created_at''"
    using merge_existing_frame [OF merge(7), of "''created_at''"] merge(6) by simp
  moreover have "get_prop r ''email'' = get_prop (subscribers_of data ! i) ''email''"
    using merge_existing_frame [OF merge(7), of "''email''"] merge(6) by simp
  ultimately show ?thesis
    using merge(1-4,8) by blast
qed

theorem merge_keeps_created_at_and_position_witness:
  "\<exists>data'.
     subscribers_file
       (snd (saveSubscriber example_clock example_disk
               (example_subscriber ''A@Example.com'' [''SE'', ''DK'']))) = Saved data' \<and>
     get_prop data' ''last_updated'' = JStr (now_last_updated example_clock) \<and>
     (\<exists>i r. i < length (subscribers_of example_document) \<and>
            matches (email (example_subscriber ''A@Example.com'' [''SE'', ''DK'']))
              (subscribers_of example_document ! i) \<and>
            subscribers_of data' = (subscribers_of example_document)[i := r] \<and>
            get_prop r ''created_at'' =
              get_prop (subscribers_of example_document ! i) ''created_at'' \<and>
            get_prop r ''email'' = get_prop (subscribers_of example_document ! i) ''email'')"
proof -
  let ?sub = "example_subscriber ''A@Example.com'' [''SE'', ''DK'']"
  have l: "load_document example_disk = Some example_document"
    by code_simp
  have "fst (saveSubscriber example_clock example_disk ?sub)"
    by code_simp
  then have s: "saveSubscriber example_clock example_disk ?sub =
          (True, snd (saveSubscriber example_clock example_disk ?sub))"
    by (simp add: prod_eq_iff)
  have "list_ex (matches (email ?sub)) (subscribers_of example_document)"
    by code_simp
  then have ex: "\<exists>s\<in>set (subscribers_of example_document). matches (email ?sub) s"
    by (simp add: list_ex_iff)
  from merge_keeps_created_at_and_position [OF l s] ex show ?thesis
    by blast
qed

subsection \<open>No record is removed or moved\<close>

text \<open>
  Claim C9. A successful save never removes or reorders subscribers. The emails of the
  records that were in the document are, in the same order, the emails of the first records
  of the document written, and the sequence is never shorter than it was. When a record
  matches the email of the new subscriber (a merge) the sequence has the length it had; when
  none does (an insert) it is the old sequence followed by the one new record.
\<close>

theorem save_never_removes_or_reorders:
  assumes "load_document d = Some data"
    and "saveSubscriber clk d sub = (True, d')"
  shows "\<exists>data'.
           subscribers_file d' = Saved data' \<and>
           map (\<lambda>s. get_prop s ''email'')
             (take (length (subscribers_of data)) (subscribers_of data')) =
           map (\<lambda>s. get_prop s ''email'') (subscribers_of data) \<and>
           length (subscribers_of data) \<le> length (subscribers_of data') \<and>
           ((\<exists>s\<in>set (subscribers_of data). matches (email sub) s) \<longrightarrow>
              length (subscribers_of data') = length (subscribers_of data)) \<and>
           ((\<forall>s\<in>set (subscribers_of data). \<not> matches (email sub) s) \<longrightarrow>
              subscribers_of data' = subscribers_of data @ [subscriber_obj sub])"
  using assms
proof (cases rule: successful_save_cases)
  case (insert data')
  then show ?thesis by (intro exI [of _ data']) simp
next
  case (merge data' i kvs r)
  let ?subs = "subscribers_of data"
  let ?em = "\<lambda>s. get_prop s ''email''"
  have e: "?em r = map ?em ?subs ! i"
    using merge_existing_frame [OF merge(7), of "''email''"] merge(6,3) by simp
  have "map ?em (?subs[i := r]) = (map ?em ?subs)[i := ?em r]"
    by (rule map_update)
  also have "\<dots> = (map ?em ?subs)[i := map ?em ?subs ! i]"
    by (simp only: e)
  also have "\<dots> = map ?em ?subs"
    by (rule list_update_id)
  finally have em: "map ?em (?subs[i := r]) = map ?em ?subs" .
  have found: "\<exists>s\<in>set ?subs. matches (email sub) s"
    using merge(3,4) nth_mem by blast
  then have "(\<forall>s\<in>set ?subs. \<not> matches (email sub) s) \<longrightarrow>
      subscribers_of data' = ?subs @ [subscriber_obj sub]"
    by blast
  with em found merge(1,8) show ?thesis by (intro exI [of _ data']) simp
qed

theorem save_never_removes_or_reorders_witness:
  "(\<exists>data'.
      subscribers_file
        (snd (saveSubscriber example_clock example_disk
                (example_subscriber ''b@example.com'' [''FI'']))) = Saved data' \<and>
      map (\<lambda>s. get_prop s ''email'')
        (take (length (subscribers_of example_document)) (subscribers_of data')) =
      map (\<lambda>s. get_prop s ''email'') (subscribers_of example_document) \<and>
      length (subscribers_of example_document) \<le> length (subscribers_of data') \<and>
      subscribers_of data' =
        subscribers_of example_document @
          [subscriber_obj (example_subscriber ''b@example.com'' [''FI''])]) \<and>
   (\<exists>data'.
      subscribers_file
        (snd (saveSubscriber example_clock example_disk
                (example_subscriber ''A@Example.com'' [''SE'', ''DK'']))) = Saved data' \<and>
      map (\<lambda>s. get_prop s ''email'')
        (take (length (subscribers_of example_document)) (subscribers_of data')) =
      map (\<lambda>s. get_prop s ''email'') (subscribers_of example_document) \<and>
      length (subscribers_of example_document) \<le> length (subscribers_of data') \<and>
      length (subscribers_of data') = length (subscribers_of example_document))"
proof -
  let ?new = "example_subscriber ''b@example.com'' [''FI'']"
  let ?old = "example_subscriber ''A@Example.com'' [''SE'', ''DK'']"
  have l: "load_document example_disk = Some example_document"
    by code_simp
  have "fst (saveSubscriber example_clock example_disk ?new)"
    by code_simp
  then have s1: "saveSubscriber example_clock example_disk ?new =
          (True, snd (saveSubscriber example_clock example_disk ?new))"
    by (simp add: prod_eq_iff)
  have "fst (saveSubscriber example_clock example_disk ?old)"
    by code_simp
  then have s2: "saveSubscriber example_clock example_disk ?old =
          (True, snd (saveSubscriber example_clock example_disk ?old))"
    by (simp add: prod_eq_iff)
  have fresh: "\<forall>s\<in>set (subscribers_of example_document). \<not> matches (email ?new) s"
    by code_simp
  have found: "\<exists>s\<in>set (subscribers_of example_document). matches (email ?old) s"
    by code_simp
  from save_never_removes_or_reorders [OF l s1] fresh
    save_never_removes_or_reorders [OF l s2] found
  show ?thesis by blast
qed

subsection \<open>Empty and unreadable bodies\<close>

text \<open>
  Claim C10. For a \<^verbatim>\<open>POST\<close> request whose body is absent or empty, \<open>parseBody\<close> gives the empty
  object and the handler answers 400 with the error \<^verbatim>\<open>Invalid email address\<close>. The same
  holds for a body that is not JSON when the content type is none of the two that
  \<open>parseBody\<close> recognizes: the parse failure becomes the empty object, not an exception.
  The store is left as it was.
\<close>

theorem empty_body_is_invalid_email:
  assumes "httpMethod ev = ''POST''"
    and "body ev = None \<or> body ev = Some [] \<or>
         (\<exists>b. body ev = Some b \<and> JSON_parse b = None \<and>
              \<not> recognized (map_of (headers ev) ''content-type''))"
  shows "parseBody (body ev) (map_of (headers ev) ''content-type'') = Some (JObj []) \<and>
         handler clk d ev =
           (\<lparr>statusCode = 400, resHeaders = [],
             resBody = JObj [(''error'', JStr ''Invalid email address'')]\<rparr>, d)"
proof -
  have pb: "parseBody (body ev) (map_of (headers ev) ''content-type'') = Some (JObj [])"
    using assms(2) parseBody_empty parseBody_fallback by metis
  with handler_empty_object [OF assms(1) pb] show ?thesis
    by (simp add: error_response_def)
qed

theorem empty_body_is_invalid_email_witness:
  \<open>(parseBody (body (json_post [])) (map_of (headers (json_post [])) ''content-type'') =
      Some (JObj []) \<and>
    handler example_clock example_disk (json_post []) =
      (\<lparr>statusCode = 400, resHeaders = [],
        resBody = JObj [(''error'', JStr ''Invalid email address'')]\<rparr>, example_disk)) \<and>
   (parseBody (Some ''email=a@example.com'') (Some ''text/plain'') = Some (JObj []) \<and>
    handler example_clock example_disk
      \<lparr>httpMethod = ''POST'', headers = [(''content-type'', ''text/plain'')],
       body = Some ''email=a@example.com''\<rparr> =
      (\<lparr>statusCode = 400, resHeaders = [],
        resBody = JObj [(''error'', JStr ''Invalid email address'')]\<rparr>, example_disk))\<close>
proof -
  let ?ev = "\<lparr>httpMethod = ''POST'', headers = [(''content-type'', ''text/plain'')],
       body = Some ''email=a@example.com''\<rparr>"
  have m1: "httpMethod (json_post []) = ''POST''"
    by (simp add: json_post_def)
  have b1: "body (json_post []) = None \<or> body (json_post []) = Some [] \<or>
         (\<exists>b. body (json_post []) = Some b \<and> JSON_parse b = None \<and>
              \<not> recognized (map_of (headers (json_post [])) ''content-type''))"
    by (simp add: json_post_def)
  have m2: "httpMethod ?ev = ''POST''"
    by simp
  have np: "JSON_parse ''email=a@example.com'' = None"
    by code_simp
  have nr: "\<not> recognized (Some ''text/plain'')"
    by code_simp
  have b2: "body ?ev = None \<or> body ?ev = Some [] \<or>
         (\<exists>b. body ?ev = Some b \<and> JSON_parse b = None \<and>
              \<not> recognized (map_of (headers ?ev) ''content-type''))"
    using np nr by simp
  from empty_body_is_invalid_email [OF m1 b1, of example_clock example_disk]
    empty_body_is_invalid_email [OF m2 b2, of example_clock example_disk]
  show ?thesis by simp
qed

end
